theory Spec2Isabelle
  imports Complex_Main "HOL-Library.Sublist"
begin

section \<open>Strings\<close>

text \<open>
  A JavaScript string is modelled as a \<^typ>\<open>string\<close>: a list of code units, each
  restricted to the range 0..255. The predicates below are the ones the server applies
  to such strings.
\<close>

text \<open>The characters matched by the regular expression class \<open>\s\<close>, which are also
  the characters removed by \<open>String.prototype.trim\<close>: TAB, LF, VT, FF, CR, SPACE, NBSP.\<close>

definition is_js_space :: "char \<Rightarrow> bool" where
  "is_js_space c \<longleftrightarrow>
     c = CHR 0x09 \<or> c = CHR 0x0A \<or> c = CHR 0x0B \<or> c = CHR 0x0C \<or> c = CHR 0x0D \<or>
     c = CHR '' '' \<or> c = CHR 0xA0"

text \<open>\<open>s.trim()\<close>\<close>

definition js_trim :: "string \<Rightarrow> string" where
  "js_trim s = rev (dropWhile is_js_space (rev (dropWhile is_js_space s)))"

text \<open>\<open>s.startsWith(p)\<close>\<close>

definition startsWith :: "string \<Rightarrow> string \<Rightarrow> bool" where
  "startsWith s p \<longleftrightarrow> prefix p s"

text \<open>\<open>s.split(c)\<close> for a one-character separator: never the empty list;
  \<open>"".split("/")\<close> is \<open>[""]\<close>.\<close>

fun split_on :: "char \<Rightarrow> string \<Rightarrow> string list" where
  "split_on c [] = [[]]"
| "split_on c (x # xs) =
     (if x = c then [] # split_on c xs
      else (case split_on c xs of
              [] \<Rightarrow> [[x]]
            | y # ys \<Rightarrow> (x # y) # ys))"

text \<open>\<open>parts.join(sep)\<close>\<close>

fun join_with :: "string \<Rightarrow> string list \<Rightarrow> string" where
  "join_with sep [] = []"
| "join_with sep [x] = x"
| "join_with sep (x # y # ys) = x @ sep @ join_with sep (y # ys)"

text \<open>\<open>s.toLowerCase()\<close> on the letters A-Z; the server applies it only to text
  that is already restricted to ASCII (a validated file name, a protocol name, a host
  name produced by the URL parser).\<close>

definition lower_char :: "char \<Rightarrow> char" where
  "lower_char c =
     (case map_of (zip ''ABCDEFGHIJKLMNOPQRSTUVWXYZ'' ''abcdefghijklmnopqrstuvwxyz'') c of
        Some l \<Rightarrow> l
      | None \<Rightarrow> c)"

definition toLowerCase :: "string \<Rightarrow> string" where
  "toLowerCase s = map lower_char s"

text \<open>Decimal rendering of an integer, as \<open>String(n)\<close> and template literals render
  an integral number below \<open>10^21\<close> in magnitude.\<close>

definition digit_char :: "nat \<Rightarrow> char" where
  "digit_char d = ''0123456789'' ! (d mod 10)"

fun show_nat :: "nat \<Rightarrow> string" where
  "show_nat n = (if n < 10 then [digit_char n] else show_nat (n div 10) @ [digit_char (n mod 10)])"

declare show_nat.simps [simp del]

definition show_int :: "int \<Rightarrow> string" where
  "show_int i = (if i < 0 then CHR ''-'' # show_nat (nat (- i)) else show_nat (nat i))"

section \<open>The path module (POSIX flavour)\<close>

text \<open>
  The server calls \<open>path.resolve\<close>, \<open>path.relative\<close>, \<open>path.isAbsolute\<close>,
  \<open>path.basename\<close> and \<open>path.extname\<close> of the Node.js runtime. They are modelled
  here on the segments of a path (the pieces between \<open>/\<close>), following the runtime's
  algorithm: \<open>normalizeString\<close> drops empty and \<open>.\<close> segments and lets \<open>..\<close> remove
  the segment before it; above the root it is dropped (absolute paths) or kept
  (\<open>allowAboveRoot\<close>).
\<close>

fun normalizeString :: "bool \<Rightarrow> string list \<Rightarrow> string list \<Rightarrow> string list" where
  "normalizeString allowAboveRoot res [] = res"
| "normalizeString allowAboveRoot res (seg # segs) =
     (if seg = [] \<or> seg = ''.'' then normalizeString allowAboveRoot res segs
      else if seg = ''..'' then
        (if res \<noteq> [] \<and> last res \<noteq> ''..''
           then normalizeString allowAboveRoot (butlast res) segs
         else if allowAboveRoot
           then normalizeString allowAboveRoot (res @ [''..'']) segs
         else normalizeString allowAboveRoot res segs)
      else normalizeString allowAboveRoot (res @ [seg]) segs)"

definition path_isAbsolute :: "string \<Rightarrow> bool" where
  "path_isAbsolute p \<longleftrightarrow> (case p of [] \<Rightarrow> False | c # _ \<Rightarrow> c = CHR ''/'')"

text \<open>The loop of \<open>path.resolve\<close>: the arguments are visited from the last to the
  first, then the working directory, until an absolute one has been prepended; empty
  arguments are skipped. The list given here is already in visiting order.\<close>

fun resolve_loop :: "string list \<Rightarrow> string \<Rightarrow> string \<times> bool" where
  "resolve_loop [] resolvedPath = (resolvedPath, False)"
| "resolve_loop (p # ps) resolvedPath =
     (if p = [] then resolve_loop ps resolvedPath
      else if path_isAbsolute p then (p @ ''/'' @ resolvedPath, True)
      else resolve_loop ps (p @ ''/'' @ resolvedPath))"

definition path_resolve :: "string \<Rightarrow> string list \<Rightarrow> string" where
  "path_resolve cwd args =
     (case resolve_loop (rev (cwd # args)) [] of
        (resolvedPath, resolvedAbsolute) \<Rightarrow>
          (let normalized =
                 join_with ''/'' (normalizeString (\<not> resolvedAbsolute) [] (split_on CHR ''/'' resolvedPath))
           in if resolvedAbsolute then CHR ''/'' # normalized
              else if normalized = [] then ''.'' else normalized))"

text \<open>The non-empty segments of a path.\<close>

definition path_segments :: "string \<Rightarrow> string list" where
  "path_segments p = filter (\<lambda>seg. seg \<noteq> []) (split_on CHR ''/'' p)"

text \<open>\<open>path.relative\<close> on two resolved paths: one \<open>..\<close> for every segment of
  \<open>from\<close> after the common leading segments, then the rest of \<open>to\<close>.\<close>

fun relative_segments :: "string list \<Rightarrow> string list \<Rightarrow> string list" where
  "relative_segments (f # fs) (t # ts) =
     (if f = t then relative_segments fs ts
      else replicate (length (f # fs)) ''..'' @ (t # ts))"
| "relative_segments fs ts = replicate (length fs) ''..'' @ ts"

definition path_relative :: "string \<Rightarrow> string \<Rightarrow> string \<Rightarrow> string" where
  "path_relative cwd from to =
     (if from = to then []
      else
        (let from' = path_resolve cwd [from];
             to' = path_resolve cwd [to]
         in if from' = to' then []
            else join_with ''/'' (relative_segments (path_segments from') (path_segments to'))))"

text \<open>\<open>path.basename\<close>: trailing slashes are dropped, then everything up to the last
  remaining slash.\<close>

definition path_basename :: "string \<Rightarrow> string" where
  "path_basename p =
     rev (takeWhile (\<lambda>c. c \<noteq> CHR ''/'') (dropWhile (\<lambda>c. c = CHR ''/'') (rev p)))"

text \<open>\<open>path.extname\<close>: from the last dot of the base name to its end; empty when
  there is no dot, when the only dot is the first character, or when the base name is
  \<open>..\<close>.\<close>

definition path_extname :: "string \<Rightarrow> string" where
  "path_extname p =
     (let base = path_basename p;
          after_dot = takeWhile (\<lambda>c. c \<noteq> CHR ''.'') (rev base)
      in if CHR ''.'' \<notin> set base then []
         else if length after_dot + 1 = length base then []
         else if base = ''..'' then []
         else CHR ''.'' # rev after_dot)"

section \<open>Configuration\<close>

text \<open>What the process reads once at start: its working directory and the
  environment variables \<open>REPO_ROOT\<close> and \<open>REMOTE_WS_PASSWORD\<close>.\<close>

record env =
  process_cwd :: string
  env_REPO_ROOT :: "string option"
  env_REMOTE_WS_PASSWORD :: "string option"

definition REPO_ROOT :: "env \<Rightarrow> string" where
  "REPO_ROOT e =
     path_resolve (process_cwd e) [case env_REPO_ROOT e of None \<Rightarrow> process_cwd e | Some r \<Rightarrow> r]"

section \<open>Path sandbox\<close>

datatype error = Error string | FsError

definition isWithinRepo :: "env \<Rightarrow> string \<Rightarrow> bool" where
  "isWithinRepo e absPath =
     (let relative = path_relative (process_cwd e) (REPO_ROOT e) absPath
      in relative = [] \<or> (\<not> startsWith relative ''..'' \<and> \<not> path_isAbsolute relative))"

definition resolveRepoPath :: "env \<Rightarrow> string option \<Rightarrow> error + string" where
  "resolveRepoPath e relativePath =
     (let input = js_trim (case relativePath of None \<Rightarrow> [] | Some s \<Rightarrow> s)
      in if CHR 0x00 \<in> set input then Inl (Error ''Path contains null byte'')
         else
           (let resolved = path_resolve (process_cwd e) [REPO_ROOT e, input]
            in if \<not> isWithinRepo e resolved then Inl (Error ''Path escapes repository root'')
               else Inr resolved))"

text \<open>The containment the sandbox is meant to guarantee, stated on segments: the
  segments of the root are the leading segments of the path.\<close>

definition lexically_within :: "string \<Rightarrow> string \<Rightarrow> bool" where
  "lexically_within rootdir p \<longleftrightarrow> prefix (path_segments rootdir) (path_segments p)"

text \<open>A segment as \<open>normalizeString\<close> leaves it in an absolute path, and the text
  of an absolute path with given segments.\<close>

definition clean_segment :: "string \<Rightarrow> bool" where
  "clean_segment seg \<longleftrightarrow>
     seg \<noteq> [] \<and> CHR ''/'' \<notin> set seg \<and> seg \<noteq> ''.'' \<and> seg \<noteq> ''..''"

definition render :: "string list \<Rightarrow> string" where
  "render segs = CHR ''/'' # join_with ''/'' segs"

section \<open>Visibility filter\<close>

text \<open>\<open>path.sep\<close> is \<open>/\<close>.\<close>

definition toRepoRelativePath :: "env \<Rightarrow> string \<Rightarrow> string" where
  "toRepoRelativePath e absPath =
     (let relative = path_relative (process_cwd e) (REPO_ROOT e) absPath
      in if relative = [] then [] else join_with ''/'' (split_on CHR ''/'' relative))"

definition isHiddenRepoRelativePath :: "string \<Rightarrow> bool" where
  "isHiddenRepoRelativePath repoRelativePath =
     (if repoRelativePath = [] then False
      else list_ex (\<lambda>segment. startsWith segment ''.'') (split_on CHR ''/'' repoRelativePath))"

definition isBlockedHiddenRepoRelativePath :: "string \<Rightarrow> bool" where
  "isBlockedHiddenRepoRelativePath repoRelativePath = isHiddenRepoRelativePath repoRelativePath"

text \<open>\<open>s.split(/\r?\n/)\<close>: the separator is a line feed together with a carriage
  return right before it, if there is one.\<close>

definition strip_cr :: "string \<Rightarrow> string" where
  "strip_cr piece = (if piece \<noteq> [] \<and> last piece = CHR 0x0D then butlast piece else piece)"

definition split_lines :: "string \<Rightarrow> string list" where
  "split_lines s =
     (let pieces = split_on CHR 0x0A s
      in map strip_cr (butlast pieces) @ [last pieces])"

text \<open>The standard output handed to \<open>parseGitIgnoredStdout\<close> may be missing
  (\<open>undefined\<close>); a missing or empty output gives the empty set.\<close>

definition parseGitIgnoredStdout :: "string option \<Rightarrow> string set" where
  "parseGitIgnoredStdout stdout =
     (case stdout of
        None \<Rightarrow> {}
      | Some out \<Rightarrow>
          if out = [] then {}
          else set (filter (\<lambda>line. line \<noteq> []) (map js_trim (split_lines out))))"

text \<open>The outcome of running \<open>git check-ignore\<close>: it exits normally with its
  output, or the call rejects with an error object that may carry the output produced
  so far.\<close>

datatype exec_result = ExecOk string | ExecError "string option"

type_synonym ignore_oracle = "string list \<Rightarrow> exec_result"

text \<open>\<open>Array.from(new Set(xs))\<close>: the first occurrence of every element, in order.\<close>

definition js_unique :: "string list \<Rightarrow> string list" where
  "js_unique xs = rev (remdups (rev xs))"

definition getGitIgnoredPathSet :: "ignore_oracle \<Rightarrow> string list \<Rightarrow> string set" where
  "getGitIgnoredPathSet git_check_ignore repoRelativePaths =
     (let normalizedPaths = js_unique (filter (\<lambda>p. p \<noteq> []) repoRelativePaths)
      in if length normalizedPaths = 0 then {}
         else (case git_check_ignore normalizedPaths of
                 ExecOk stdout \<Rightarrow> parseGitIgnoredStdout (Some stdout)
               | ExecError stdout \<Rightarrow> parseGitIgnoredStdout stdout))"

record access_options =
  allowHidden :: bool
  allowGitIgnored :: bool

text \<open>A call without options is a call with both flags off.\<close>

definition no_options :: access_options where
  "no_options = \<lparr>allowHidden = False, allowGitIgnored = False\<rparr>"

definition assertPathAccessible ::
  "env \<Rightarrow> ignore_oracle \<Rightarrow> string \<Rightarrow> access_options \<Rightarrow> error + unit" where
  "assertPathAccessible e git_check_ignore absPath options =
     (let repoRelativePath = toRepoRelativePath e absPath
      in if \<not> allowHidden options \<and> isBlockedHiddenRepoRelativePath repoRelativePath
           then Inl (Error ''Hidden paths are not accessible'')
         else if \<not> allowGitIgnored options \<and> repoRelativePath \<noteq> [] \<and>
                 repoRelativePath \<in> getGitIgnoredPathSet git_check_ignore [repoRelativePath]
           then Inl (Error ''Gitignored paths are not accessible'')
         else Inr ())"

text \<open>A path has a segment that starts with a dot: it starts with a dot itself, or a
  dot follows a slash somewhere in it.\<close>

definition has_dot_segment :: "string \<Rightarrow> bool" where
  "has_dot_segment p \<longleftrightarrow> prefix ''.'' p \<or> sublist ''/.'' p"

text \<open>The ignore oracle failed and produced no output: the call rejected, and the
  error carries no output or an empty one.\<close>

definition failed_without_output :: "exec_result \<Rightarrow> bool" where
  "failed_without_output r \<longleftrightarrow> r = ExecError None \<or> r = ExecError (Some [])"

section \<open>File system\<close>

text \<open>What the server reads from the file system: \<open>fs.stat\<close> and \<open>fs.realpath\<close>
  (\<open>None\<close> when the call rejects) and \<open>existsSync\<close>.\<close>

datatype file_kind = RegularFile | Directory | OtherKind

record stats =
  kind :: file_kind
  size_bytes :: nat
  mtimeMs :: real

record filesystem =
  fs_stat :: "string \<Rightarrow> stats option"
  fs_realpath :: "string \<Rightarrow> string option"
  fs_existsSync :: "string \<Rightarrow> bool"

definition ensureDirectory ::
  "env \<Rightarrow> filesystem \<Rightarrow> ignore_oracle \<Rightarrow> string \<Rightarrow> access_options \<Rightarrow> error + unit" where
  "ensureDirectory e fs git_check_ignore absPath options =
     (case fs_stat fs absPath of
        None \<Rightarrow> Inl FsError
      | Some st \<Rightarrow>
          if kind st \<noteq> Directory then Inl (Error ''Target path is not a directory'')
          else (case fs_realpath fs absPath of
                  None \<Rightarrow> Inl FsError
                | Some realPath \<Rightarrow>
                    if \<not> isWithinRepo e realPath
                      then Inl (Error ''Resolved path escapes repository root'')
                    else assertPathAccessible e git_check_ignore realPath options))"

definition ensureFile ::
  "env \<Rightarrow> filesystem \<Rightarrow> ignore_oracle \<Rightarrow> string \<Rightarrow> access_options \<Rightarrow> error + unit" where
  "ensureFile e fs git_check_ignore absPath options =
     (case fs_stat fs absPath of
        None \<Rightarrow> Inl FsError
      | Some st \<Rightarrow>
          if kind st \<noteq> RegularFile then Inl (Error ''Target path is not a file'')
          else (case fs_realpath fs absPath of
                  None \<Rightarrow> Inl FsError
                | Some realPath \<Rightarrow>
                    if \<not> isWithinRepo e realPath
                      then Inl (Error ''Resolved path escapes repository root'')
                    else assertPathAccessible e git_check_ignore realPath options))"

section \<open>Upload file names\<close>

definition ALLOWED_IMAGE_EXTENSIONS :: "string list" where
  "ALLOWED_IMAGE_EXTENSIONS =
     [''.png'', ''.jpg'', ''.jpeg'', ''.gif'', ''.webp'', ''.svg'', ''.bmp'', ''.heic'', ''.heif'',
      ''.avif'']"

text \<open>The characters of the regular expression class \<open>[\u0000-\u001f]\<close>.\<close>

definition is_control_char :: "char \<Rightarrow> bool" where
  "is_control_char c \<longleftrightarrow> (of_char c :: nat) < 32"

text \<open>The characters of the regular expression class \<open>[A-Za-z0-9._-]\<close>.\<close>

definition is_name_char :: "char \<Rightarrow> bool" where
  "is_name_char c \<longleftrightarrow>
     c \<in> set ''ABCDEFGHIJKLMNOPQRSTUVWXYZabcdefghijklmnopqrstuvwxyz0123456789._-''"

text \<open>The fallback name is built from the clock reading \<open>Date.now()\<close>, passed here as
  \<open>now\<close>.\<close>

definition sanitizeUploadFilename :: "int \<Rightarrow> string \<Rightarrow> string" where
  "sanitizeUploadFilename now originalName =
     (let stripped = filter (\<lambda>c. \<not> is_control_char c) (path_basename originalName);
          cleaned = js_trim stripped
      in if cleaned = [] \<or> cleaned = ''.'' \<or> cleaned = ''..''
           then ''upload-'' @ show_int now
         else cleaned)"

text \<open>\<open>None\<close> is the source's \<open>null\<close>: the name is accepted.\<close>

definition validateUploadFilename :: "string \<Rightarrow> string option" where
  "validateUploadFilename fileName =
     (if fileName = [] then Some ''Filename is required''
      else if list_ex is_js_space fileName then Some ''Filename cannot contain spaces''
      else if fileName = ''.'' \<or> fileName = ''..'' \<or> startsWith fileName ''.''
        then Some ''Filename is invalid''
      else if \<not> (fileName \<noteq> [] \<and> list_all is_name_char fileName)
        then Some ''Filename may only contain letters, numbers, dot, underscore, and dash''
      else
        (let extension = toLowerCase (path_extname fileName)
         in if extension = [] \<or> extension \<notin> set ALLOWED_IMAGE_EXTENSIONS
              then Some ''Filename must use an allowed image extension''
            else None))"

definition resolveNamedImagePath :: "string \<Rightarrow> int \<Rightarrow> string \<Rightarrow> string \<Rightarrow> error + (string \<times> string)" where
  "resolveNamedImagePath wd now baseDirectoryPath requestedName =
     (let safeName = sanitizeUploadFilename now requestedName
      in case validateUploadFilename safeName of
           Some validationError \<Rightarrow> Inl (Error validationError)
         | None \<Rightarrow>
             (let absoluteDirectoryPath = path_resolve wd [baseDirectoryPath];
                  absolutePath = path_resolve wd [absoluteDirectoryPath, safeName];
                  relativeToDirectory = path_relative wd absoluteDirectoryPath absolutePath
              in if startsWith relativeToDirectory ''..'' \<or> path_isAbsolute relativeToDirectory
                   then Inl (Error ''Path escapes target directory'')
                 else Inr (absolutePath, safeName)))"

text \<open>\<open>path.normalize\<close> and \<open>path.join\<close>: empty arguments are skipped, the rest is
  joined with slashes and normalized; a trailing slash is kept.\<close>

definition path_normalize :: "string \<Rightarrow> string" where
  "path_normalize p =
     (if p = [] then ''.''
      else
        (let isAbsolute = path_isAbsolute p;
             trailingSeparator = (last p = CHR ''/'');
             normalized = join_with ''/'' (normalizeString (\<not> isAbsolute) [] (split_on CHR ''/'' p))
         in if normalized = []
              then (if isAbsolute then ''/'' else if trailingSeparator then ''./'' else ''.'')
            else (if isAbsolute then ''/'' else []) @ normalized @
                 (if trailingSeparator then ''/'' else [])))"

definition path_join :: "string list \<Rightarrow> string" where
  "path_join args =
     (let parts = filter (\<lambda>arg. arg \<noteq> []) args
      in if parts = [] then ''.'' else path_normalize (join_with ''/'' parts))"

text \<open>The \<open>filename\<close> callback of the disk storage. \<open>uploadDirectoryPath\<close> is the
  field the \<open>destination\<close> callback has set on the request (or not), and
  \<open>requestedName\<close> the \<open>name\<close> query parameter (or none).\<close>

definition storage_filename ::
  "filesystem \<Rightarrow> int \<Rightarrow> string option \<Rightarrow> string option \<Rightarrow> error + string" where
  "storage_filename fs now uploadDirectoryPath requestedName =
     (case uploadDirectoryPath of
        None \<Rightarrow> Inl (Error ''Upload directory unavailable'')
      | Some dir \<Rightarrow>
          if dir = [] then Inl (Error ''Upload directory unavailable'')
          else (case requestedName of
                  None \<Rightarrow> Inl (Error ''Missing required query parameter: name'')
                | Some name \<Rightarrow>
                    if name = [] then Inl (Error ''Missing required query parameter: name'')
                    else
                      (let sanitizedRequestedName = sanitizeUploadFilename now name
                       in case validateUploadFilename sanitizedRequestedName of
                            Some validationError \<Rightarrow> Inl (Error validationError)
                          | None \<Rightarrow>
                              (let targetPath = path_join [dir, sanitizedRequestedName]
                               in if fs_existsSync fs targetPath
                                    then Inl (Error ''Filename already exists'')
                                  else Inr sanitizedRequestedName))))"

text \<open>The disk storage of the upload library opens the file
  \<open>path.join(destination, filename)\<close> for writing only after the \<open>filename\<close> callback
  has handed it a name; when the callback reports an error nothing is opened. This is
  the file an upload request writes, if any.\<close>

definition upload_written_file ::
  "filesystem \<Rightarrow> int \<Rightarrow> string option \<Rightarrow> string option \<Rightarrow> string option" where
  "upload_written_file fs now uploadDirectoryPath requestedName =
     (case storage_filename fs now uploadDirectoryPath requestedName of
        Inl err \<Rightarrow> None
      | Inr filename \<Rightarrow>
          Some (path_join [case uploadDirectoryPath of None \<Rightarrow> [] | Some dir \<Rightarrow> dir, filename]))"

text \<open>A file name carries an extension of the allow-list: it ends, after at least one
  other character, with one of the listed extensions, letter case apart.\<close>

definition has_allowed_extension :: "string \<Rightarrow> bool" where
  "has_allowed_extension fileName \<longleftrightarrow>
     (\<exists>stem ext. fileName = stem @ ext \<and> stem \<noteq> [] \<and>
        toLowerCase ext \<in> set ALLOWED_IMAGE_EXTENSIONS)"

text \<open>The four faults of a candidate file name.\<close>

definition violates_filename_rules :: "string \<Rightarrow> bool" where
  "violates_filename_rules fileName \<longleftrightarrow>
     list_ex is_js_space fileName \<or> startsWith fileName ''.'' \<or>
     \<not> list_all is_name_char fileName \<or> \<not> has_allowed_extension fileName"

section \<open>Requests, responses and the runtime\<close>

text \<open>What the server reads from a request: the method, the headers as
  \<open>req.header(name)\<close> gives them (\<open>None\<close> for \<open>undefined\<close>), and the fields \<open>req.ip\<close>,
  \<open>req.socket.remoteAddress\<close> and \<open>req.protocol\<close>.\<close>

record request =
  req_method :: string
  req_header :: "string \<Rightarrow> string option"
  req_ip :: "string option"
  req_remoteAddress :: "string option"
  req_protocol :: "string option"

record url =
  url_protocol :: string
  url_hostname :: string
  url_port :: string

text \<open>Library functions of the runtime that the server calls and that are taken as
  given: \<open>Date.parse\<close> (\<open>None\<close> for \<open>NaN\<close>), \<open>Date.prototype.toUTCString\<close>, the \<open>URL\<close>
  constructor (\<open>None\<close> when it throws) and base64 decoding.\<close>

record runtime =
  Date_parse :: "string \<Rightarrow> int option"
  Date_toUTCString :: "real \<Rightarrow> string"
  URL_parse :: "string \<Rightarrow> url option"
  base64_decode :: "string \<Rightarrow> string"

record response =
  status :: nat
  res_headers :: "(string \<times> string) list"
  body :: string
  ended :: bool

definition setHeader :: "response \<Rightarrow> string \<Rightarrow> string \<Rightarrow> response" where
  "setHeader res name v =
     res\<lparr>res_headers := (name, v) # filter (\<lambda>h. fst h \<noteq> name) (res_headers res)\<rparr>"

text \<open>\<open>res.status(code).send(text)\<close> and \<open>res.status(code).end()\<close>.\<close>

definition send :: "response \<Rightarrow> nat \<Rightarrow> string \<Rightarrow> response" where
  "send res code text = res\<lparr>status := code, body := text, ended := True\<rparr>"

section \<open>Conditional cache responder\<close>







section \<open>Authentication gateway\<close>

definition AUTH_WINDOW_MS :: int where "AUTH_WINDOW_MS = 10 * 60 * 1000"
definition AUTH_MAX_ATTEMPTS :: int where "AUTH_MAX_ATTEMPTS = 20"
definition AUTH_BLOCK_MS :: int where "AUTH_BLOCK_MS = 15 * 60 * 1000"

definition BASIC_AUTH_PASSWORD :: "env \<Rightarrow> string" where
  "BASIC_AUTH_PASSWORD e = (case env_REMOTE_WS_PASSWORD e of None \<Rightarrow> [] | Some p \<Rightarrow> p)"

record auth_failure =
  windowStartAt :: int
  failures :: int
  blockedUntil :: int

type_synonym auth_state = "string \<rightharpoonup> auth_failure"

text \<open>\<open>s.indexOf(c)\<close>, \<open>None\<close> for \<open>-1\<close>.\<close>

fun index_of :: "char \<Rightarrow> string \<Rightarrow> nat option" where
  "index_of c [] = None"
| "index_of c (x # xs) = (if x = c then Some 0 else map_option Suc (index_of c xs))"

definition parseBasicAuthPassword :: "runtime \<Rightarrow> request \<Rightarrow> string option" where
  "parseBasicAuthPassword rt req =
     (case req_header req ''authorization'' of
        None \<Rightarrow> None
      | Some authHeader \<Rightarrow>
          if authHeader = [] then None
          else if \<not> startsWith authHeader ''Basic '' then None
          else
            (let encoded = js_trim (drop (length ''Basic '') authHeader)
             in if encoded = [] then None
                else
                  (let decoded = base64_decode rt encoded
                   in case index_of CHR '':'' decoded of
                        None \<Rightarrow> None
                      | Some separatorIndex \<Rightarrow> Some (drop (separatorIndex + 1) decoded))))"

text \<open>\<open>Buffer.from(s, "utf8")\<close> on code units below 256: one byte below 128, two bytes
  from there on.\<close>

definition utf8_bytes :: "string \<Rightarrow> nat list" where
  "utf8_bytes s =
     concat (map (\<lambda>c. if (of_char c :: nat) < 128 then [of_char c]
                       else [192 + of_char c div 64, 128 + of_char c mod 64]) s)"

definition constantTimePasswordMatch :: "string \<Rightarrow> string \<Rightarrow> bool" where
  "constantTimePasswordMatch actualPassword expectedPassword =
     (let actual = utf8_bytes actualPassword;
          expected = utf8_bytes expectedPassword
      in if length actual \<noteq> length expected then False
         else actual = expected)"

definition clientIPAddress :: "request \<Rightarrow> string" where
  "clientIPAddress req =
     (let forwarded =
            (case req_header req ''x-forwarded-for'' of
               None \<Rightarrow> []
             | Some forwardedFor \<Rightarrow>
                 (case split_on CHR '','' forwardedFor of
                    [] \<Rightarrow> []
                  | first # _ \<Rightarrow> js_trim first))
      in if forwarded \<noteq> [] then forwarded
         else (case req_ip req of
                 Some ip \<Rightarrow> if ip \<noteq> [] then ip
                            else (case req_remoteAddress req of
                                    Some a \<Rightarrow> if a \<noteq> [] then a else ''unknown''
                                  | None \<Rightarrow> ''unknown'')
               | None \<Rightarrow> (case req_remoteAddress req of
                             Some a \<Rightarrow> if a \<noteq> [] then a else ''unknown''
                           | None \<Rightarrow> ''unknown'')))"

definition normalizeAuthority :: "url \<Rightarrow> string" where
  "normalizeAuthority authorityUrl =
     (let protocolPort = (if url_protocol authorityUrl = ''https:'' then ''443'' else ''80'');
          port = (if url_port authorityUrl \<noteq> [] then url_port authorityUrl else protocolPort)
      in toLowerCase (url_hostname authorityUrl) @ '':'' @ port)"

definition normalizeRequestAuthority :: "runtime \<Rightarrow> request \<Rightarrow> string option" where
  "normalizeRequestAuthority rt req =
     (case (case req_header req ''x-forwarded-host'' of
              Some h \<Rightarrow> Some h
            | None \<Rightarrow> req_header req ''host'') of
        None \<Rightarrow> None
      | Some hostHeader \<Rightarrow>
          if hostHeader = [] then None
          else
            (let protocolHeader =
                   (case req_header req ''x-forwarded-proto'' of
                      Some p \<Rightarrow> p
                    | None \<Rightarrow> (case req_protocol req of Some p \<Rightarrow> p | None \<Rightarrow> ''http''));
                 protocol =
                   (if startsWith (toLowerCase protocolHeader) ''https'' then ''https'' else ''http'')
             in case URL_parse rt (protocol @ ''://'' @ hostHeader) of
                  None \<Rightarrow> None
                | Some u \<Rightarrow> Some (normalizeAuthority u)))"

text \<open>A string that is present and not empty, as the tests \<open>if (header)\<close> and
  \<open>if (!value)\<close> of the source see it.\<close>

definition truthy :: "string option \<Rightarrow> string option" where
  "truthy v = (case v of None \<Rightarrow> None | Some s \<Rightarrow> if s = [] then None else Some s)"

definition isSameOriginMutation :: "runtime \<Rightarrow> request \<Rightarrow> bool" where
  "isSameOriginMutation rt req =
     (case truthy (normalizeRequestAuthority rt req) of
        None \<Rightarrow> False
      | Some requestAuthority \<Rightarrow>
          (case truthy (req_header req ''origin'') of
             Some originHeader \<Rightarrow>
               (case URL_parse rt originHeader of
                  None \<Rightarrow> False
                | Some u \<Rightarrow> normalizeAuthority u = requestAuthority)
           | None \<Rightarrow>
               (case truthy (req_header req ''referer'') of
                  Some refererHeader \<Rightarrow>
                    (case URL_parse rt refererHeader of
                       None \<Rightarrow> False
                     | Some u \<Rightarrow> normalizeAuthority u = requestAuthority)
                | None \<Rightarrow> False)))"

text \<open>\<open>recordAuthFailure\<close> reads the clock once (\<open>now\<close>); it returns the \<open>blockedUntil\<close>
  field of its result, if it has one, and the map of failure records as it has become.\<close>

definition recordAuthFailure :: "auth_state \<Rightarrow> int \<Rightarrow> request \<Rightarrow> int option \<times> auth_state" where
  "recordAuthFailure authFailureByIP now req =
     (let ip = clientIPAddress req;
          first = \<lparr>windowStartAt = now, failures = 1, blockedUntil = 0\<rparr>
      in case authFailureByIP ip of
           None \<Rightarrow> (None, authFailureByIP(ip \<mapsto> first))
         | Some existing \<Rightarrow>
             if now - windowStartAt existing \<ge> AUTH_WINDOW_MS
               then (None, authFailureByIP(ip \<mapsto> first))
             else if failures existing + 1 \<ge> AUTH_MAX_ATTEMPTS
               then (Some (now + AUTH_BLOCK_MS),
                     authFailureByIP(ip \<mapsto>
                       \<lparr>windowStartAt = now, failures = 0, blockedUntil = now + AUTH_BLOCK_MS\<rparr>))
             else (None, authFailureByIP(ip \<mapsto> existing\<lparr>failures := failures existing + 1\<rparr>)))"

text \<open>\<open>Math.ceil(ms / 1000)\<close> on an integral number of milliseconds.\<close>

definition ceil_seconds :: "int \<Rightarrow> int" where
  "ceil_seconds ms = - ((- ms) div 1000)"

text \<open>The clock readings of one pass through the middleware: at its entry, inside
  \<open>recordAuthFailure\<close>, and when the \<open>Retry-After\<close> value of a fresh block is computed.\<close>

record clock =
  now_entry :: int
  now_record :: int
  now_reply :: int

datatype outcome = Responded response | Next

definition is_mutating :: "string \<Rightarrow> bool" where
  "is_mutating m \<longleftrightarrow> m = ''POST'' \<or> m = ''PUT'' \<or> m = ''PATCH'' \<or> m = ''DELETE''"

definition credentials_ok :: "runtime \<Rightarrow> env \<Rightarrow> request \<Rightarrow> bool" where
  "credentials_ok rt e req =
     (case parseBasicAuthPassword rt req of
        None \<Rightarrow> False
      | Some suppliedPassword \<Rightarrow> constantTimePasswordMatch suppliedPassword (BASIC_AUTH_PASSWORD e))"

definition auth_middleware ::
  "runtime \<Rightarrow> env \<Rightarrow> auth_state \<Rightarrow> clock \<Rightarrow> request \<Rightarrow> response \<Rightarrow> outcome \<times> auth_state" where
  "auth_middleware rt e authFailureByIP clk req res =
     (let now = now_entry clk;
          ip = clientIPAddress req
      in case (case authFailureByIP ip of
                 None \<Rightarrow> None
               | Some existing \<Rightarrow>
                   if blockedUntil existing \<noteq> 0 \<and> blockedUntil existing > now
                     then Some existing else None) of
           Some existing \<Rightarrow>
             (let retryAfterSeconds = ceil_seconds (blockedUntil existing - now)
              in (Responded (send (setHeader res ''Retry-After'' (show_int retryAfterSeconds))
                               429 ''Too many authentication failures''),
                  authFailureByIP))
         | None \<Rightarrow>
             if credentials_ok rt e req then
               (let cleared = authFailureByIP(ip := None)
                in if is_mutating (req_method req) \<and> \<not> isSameOriginMutation rt req
                     then (Responded (send res 403 ''Origin validation failed''), cleared)
                   else (Next, cleared))
             else
               (case recordAuthFailure authFailureByIP (now_record clk) req of
                  (failure, recorded) \<Rightarrow>
                    (case (case failure of
                             None \<Rightarrow> None
                           | Some b \<Rightarrow> if b \<noteq> 0 then Some b else None) of
                       Some b \<Rightarrow>
                         (let retryAfterSeconds = ceil_seconds (b - now_reply clk)
                          in (Responded (send (setHeader res ''Retry-After'' (show_int retryAfterSeconds))
                                           429 ''Too many authentication failures''),
                              recorded))
                     | None \<Rightarrow>
                         (Responded (send (setHeader res ''WWW-Authenticate''
                                             (''Basic realm='' @ [CHR 0x22] @ ''remote-workspace'' @ [CHR 0x22] @
                                              '', charset='' @ [CHR 0x22] @ ''UTF-8'' @ [CHR 0x22]))
                                       401 ''Authentication required''),
                          recorded))))"

text \<open>The middleware is installed only when a password is configured; without one
  every request goes on to its route.\<close>

definition gateway ::
  "runtime \<Rightarrow> env \<Rightarrow> auth_state \<Rightarrow> clock \<Rightarrow> request \<Rightarrow> response \<Rightarrow> outcome \<times> auth_state" where
  "gateway rt e authFailureByIP clk req res =
     (if length (BASIC_AUTH_PASSWORD e) > 0 then auth_middleware rt e authFailureByIP clk req res
      else (Next, authFailureByIP))"

text \<open>The response object as the first middleware receives it.\<close>

definition fresh_response :: response where
  "fresh_response = \<lparr>status = 200, res_headers = [], body = [], ended = False\<rparr>"

text \<open>The server handles one request after the other; the map of failure records
  is threaded through. A request comes with the clock readings of its pass.\<close>

fun serve_all :: "runtime \<Rightarrow> env \<Rightarrow> auth_state \<Rightarrow> (clock \<times> request) list \<Rightarrow> auth_state" where
  "serve_all rt e authFailureByIP [] = authFailureByIP"
| "serve_all rt e authFailureByIP ((clk, req) # rest) =
     serve_all rt e (snd (gateway rt e authFailureByIP clk req fresh_response)) rest"

text \<open>The requests of a trace that come from a given address.\<close>

definition requests_from :: "string \<Rightarrow> (clock \<times> request) list \<Rightarrow> (clock \<times> request) list" where
  "requests_from ip reqs = filter (\<lambda>cr. clientIPAddress (snd cr) = ip) reqs"

text \<open>The answer to a request from a blocked address.\<close>

definition too_many_failures :: "response \<Rightarrow> int \<Rightarrow> response" where
  "too_many_failures res retryAfterSeconds =
     send (setHeader res ''Retry-After'' (show_int retryAfterSeconds))
       429 ''Too many authentication failures''"

text \<open>The record of an address says it is blocked at a given time.\<close>

definition is_blocked :: "auth_state \<Rightarrow> string \<Rightarrow> int \<Rightarrow> bool" where
  "is_blocked authFailureByIP ip now \<longleftrightarrow>
     (case authFailureByIP ip of
        None \<Rightarrow> False
      | Some existing \<Rightarrow> blockedUntil existing \<noteq> 0 \<and> blockedUntil existing > now)"

text \<open>The effective origin of a request: the authority of its \<open>Origin\<close> header or,
  when that header is absent (or empty), of its \<open>Referer\<close> header; none when the header
  used is no URL or both are absent.\<close>

definition effective_origin :: "runtime \<Rightarrow> request \<Rightarrow> string option" where
  "effective_origin rt req =
     (case truthy (req_header req ''origin'') of
        Some originHeader \<Rightarrow> map_option normalizeAuthority (URL_parse rt originHeader)
      | None \<Rightarrow>
          (case truthy (req_header req ''referer'') of
             Some refererHeader \<Rightarrow> map_option normalizeAuthority (URL_parse rt refererHeader)
           | None \<Rightarrow> None))"

section \<open>Example values\<close>

text \<open>A runtime whose library functions are tables with the few entries the examples
  need, a configuration with a password, and requests given by their method and their
  headers.\<close>

definition example_runtime :: runtime where
  "example_runtime =
     \<lparr>Date_parse = (\<lambda>s. if s = ''Thu, 01 Jan 1970 00:00:02 GMT'' then Some 2000 else None),
      Date_toUTCString = (\<lambda>t. ''Thu, 01 Jan 1970 00:00:01 GMT''),
      URL_parse =
        (\<lambda>s. if s = ''http://repo.example''
                then Some \<lparr>url_protocol = ''http:'', url_hostname = ''repo.example'', url_port = []\<rparr>
              else if s = ''https://evil.example/page''
                then Some \<lparr>url_protocol = ''https:'', url_hostname = ''evil.example'', url_port = []\<rparr>
              else None),
      base64_decode = (\<lambda>s. if s = ''dXNlcjpzZWNyZXQ='' then ''user:secret'' else [])\<rparr>"

definition example_env :: env where
  "example_env =
     \<lparr>process_cwd = ''/srv'', env_REPO_ROOT = Some ''/repo'', env_REMOTE_WS_PASSWORD = Some ''secret''\<rparr>"

definition example_request :: "string \<Rightarrow> (string \<times> string) list \<Rightarrow> request" where
  "example_request m hs =
     \<lparr>req_method = m, req_header = map_of hs, req_ip = Some ''10.0.0.1'',
      req_remoteAddress = None, req_protocol = Some ''http''\<rparr>"

definition example_clock :: "int \<Rightarrow> clock" where
  "example_clock t = \<lparr>now_entry = t, now_record = t, now_reply = t\<rparr>"

section \<open>Facts about strings and paths\<close>

lemma split_on_nonempty [simp]: "split_on c s \<noteq> []"
  by (induction s) (auto split: list.splits)

lemma split_on_no_sep: "seg \<in> set (split_on c s) \<Longrightarrow> c \<notin> set seg"
  by (induction s arbitrary: seg) (auto split: list.splits if_splits)

lemma split_on_free: "c \<notin> set s \<Longrightarrow> split_on c s = [s]"
  by (induction s) auto

lemma split_on_append:
  "c \<notin> set a \<Longrightarrow> split_on c (a @ c # b) = a # split_on c b"
  by (induction a) (auto split: list.splits)

lemma split_on_join:
  "segs \<noteq> [] \<Longrightarrow> \<forall>seg \<in> set segs. c \<notin> set seg \<Longrightarrow> split_on c (join_with [c] segs) = segs"
proof (induction segs)
  case Nil then show ?case by simp
next
  case (Cons x xs)
  show ?case
  proof (cases xs)
    case Nil
    with Cons.prems show ?thesis by (simp add: split_on_free)
  next
    case (Cons y ys)
    with Cons.prems Cons.IH show ?thesis by (simp add: split_on_append)
  qed
qed

lemma split_on_snoc: "split_on c (s @ [c]) = split_on c s @ [[]]"
  by (induction s) (auto split: list.splits)

lemma normalizeString_append:
  "normalizeString a res (xs @ ys) = normalizeString a (normalizeString a res xs) ys"
  by (induction xs arbitrary: res) auto

lemma normalizeString_clean_id:
  "\<forall>seg \<in> set segs. clean_segment seg \<Longrightarrow> normalizeString a res segs = res @ segs"
  by (induction segs arbitrary: res) (auto simp: clean_segment_def)

lemma normalizeString_clean:
  "\<forall>seg \<in> set res. clean_segment seg \<Longrightarrow> \<forall>seg \<in> set segs. CHR ''/'' \<notin> set seg \<Longrightarrow>
   \<forall>seg \<in> set (normalizeString False res segs). clean_segment seg"
proof (induction segs arbitrary: res)
  case Nil then show ?case by simp
next
  case (Cons s segs)
  have bl: "\<forall>seg \<in> set (butlast res). clean_segment seg"
    using Cons.prems(1) by (meson in_set_butlastD)
  have ap: "s \<noteq> [] \<Longrightarrow> s \<noteq> ''.'' \<Longrightarrow> s \<noteq> ''..'' \<Longrightarrow> \<forall>seg \<in> set (res @ [s]). clean_segment seg"
    using Cons.prems by (auto simp: clean_segment_def)
  show ?case
    using Cons.IH[OF Cons.prems(1)] Cons.IH[OF bl] Cons.IH[OF ap] Cons.prems(2)
    by auto
qed

lemma split_render:
  assumes "\<forall>seg \<in> set segs. clean_segment seg"
  shows "split_on CHR ''/'' (render segs) = (if segs = [] then [[], []] else [] # segs)"
proof (cases "segs = []")
  case True then show ?thesis by (simp add: render_def)
next
  case False
  have "\<forall>seg \<in> set segs. CHR ''/'' \<notin> set seg" using assms by (simp add: clean_segment_def)
  then have "split_on CHR ''/'' (join_with [CHR ''/''] segs) = segs"
    using False by (rule split_on_join[rotated])
  then show ?thesis using False by (simp add: render_def)
qed

lemma path_segments_render:
  "\<forall>seg \<in> set segs. clean_segment seg \<Longrightarrow> path_segments (render segs) = segs"
  by (auto simp: path_segments_def split_render clean_segment_def filter_id_conv)

lemma render_inj:
  "\<forall>seg \<in> set xs. clean_segment seg \<Longrightarrow> \<forall>seg \<in> set ys. clean_segment seg \<Longrightarrow>
   render xs = render ys \<longleftrightarrow> xs = ys"
  by (metis path_segments_render)

lemma resolve_loop_absolute:
  "\<exists>p \<in> set ps. path_isAbsolute p \<Longrightarrow> snd (resolve_loop ps acc) = True"
  by (induction ps arbitrary: acc) (auto simp: path_isAbsolute_def)

lemma path_resolve_render:
  assumes "path_isAbsolute wd"
  shows "\<exists>segs. (\<forall>seg \<in> set segs. clean_segment seg) \<and> path_resolve wd args = render segs"
proof -
  have "snd (resolve_loop (rev (wd # args)) []) = True"
    using assms by (intro resolve_loop_absolute) auto
  then obtain s where s: "resolve_loop (rev (wd # args)) [] = (s, True)"
    by (metis prod.collapse)
  let ?segs = "normalizeString False [] (split_on CHR ''/'' s)"
  have "\<forall>seg \<in> set ?segs. clean_segment seg"
    by (rule normalizeString_clean) (auto dest: split_on_no_sep)
  moreover have "path_resolve wd args = render ?segs"
    using s unfolding path_resolve_def by (simp add: render_def)
  ultimately show ?thesis by blast
qed

lemma path_isAbsolute_render [simp]: "path_isAbsolute (render segs)"
  by (simp add: path_isAbsolute_def render_def)

lemma render_nonempty [simp]: "render segs \<noteq> []"
  by (simp add: render_def)

lemma path_resolve_idem:
  assumes "\<forall>seg \<in> set segs. clean_segment seg"
  shows "path_resolve wd [render segs] = render segs"
proof -
  have loop: "resolve_loop (rev [wd, render segs]) [] = (render segs @ ''/'', True)"
    by simp
  have "split_on CHR ''/'' (render segs @ ''/'') = split_on CHR ''/'' (render segs) @ [[]]"
    by (rule split_on_snoc)
  then have "normalizeString False [] (split_on CHR ''/'' (render segs @ ''/'')) = segs"
    using assms by (auto simp: split_render normalizeString_append normalizeString_clean_id)
  then show ?thesis
    unfolding path_resolve_def using loop by (simp add: render_def)
qed


lemma relative_segments_not_prefix:
  "\<not> prefix fs ts \<Longrightarrow> \<exists>rest. relative_segments fs ts = ''..'' # rest"
proof (induction fs arbitrary: ts)
  case Nil
  then show ?case by simp
next
  case (Cons f fs)
  show ?case
  proof (cases ts)
    case Nil
    then show ?thesis by simp
  next
    case (Cons t ts')
    with Cons.prems Cons.IH[of ts'] show ?thesis by auto
  qed
qed

lemma relative_segments_prefix: "relative_segments fs (fs @ ts) = ts"
  by (induction fs) auto

lemma join_with_Cons_prefix: "prefix x (join_with sep (x # xs))"
  by (cases xs) auto

lemma path_relative_render:
  assumes "\<forall>seg \<in> set fs. clean_segment seg" and "\<forall>seg \<in> set ts. clean_segment seg"
  shows "path_relative wd (render fs) (render ts) =
           (if fs = ts then [] else join_with ''/'' (relative_segments fs ts))"
  using assms
  by (simp add: path_relative_def path_resolve_idem path_segments_render render_inj Let_def)

lemma REPO_ROOT_render:
  assumes "path_isAbsolute (process_cwd e)"
  shows "\<exists>rs. (\<forall>seg \<in> set rs. clean_segment seg) \<and> REPO_ROOT e = render rs"
  unfolding REPO_ROOT_def using path_resolve_render[OF assms] by blast

lemma js_trim_set: "set (js_trim s) \<subseteq> set s"
proof -
  have "set (js_trim s) = set (dropWhile is_js_space (rev (dropWhile is_js_space s)))"
    by (simp add: js_trim_def)
  also have "\<dots> \<subseteq> set (rev (dropWhile is_js_space s))" by (rule set_dropWhileD[THEN subsetI])
  also have "\<dots> \<subseteq> set s" using set_dropWhileD by fastforce
  finally show ?thesis .
qed

lemma NUL_survives_trim: "CHR 0x00 \<in> set s \<Longrightarrow> CHR 0x00 \<in> set (js_trim s)"
proof -
  have keep: "\<And>xs. CHR 0x00 \<in> set xs \<Longrightarrow> CHR 0x00 \<in> set (dropWhile is_js_space xs)"
  proof -
    fix xs :: string assume "CHR 0x00 \<in> set xs"
    then show "CHR 0x00 \<in> set (dropWhile is_js_space xs)"
      by (induction xs) (auto simp: is_js_space_def)
  qed
  assume "CHR 0x00 \<in> set s"
  then show ?thesis unfolding js_trim_def by (simp add: keep)
qed

lemma isWithinRepo_resolved:
  assumes wd: "path_isAbsolute (process_cwd e)" and within: "isWithinRepo e p"
  shows "lexically_within (REPO_ROOT e) (path_resolve (process_cwd e) [p])"
proof -
  from REPO_ROOT_render[OF wd] obtain rs
    where rs: "\<forall>seg \<in> set rs. clean_segment seg" and root: "REPO_ROOT e = render rs" by blast
  from path_resolve_render[OF wd] obtain ts
    where ts: "\<forall>seg \<in> set ts. clean_segment seg"
      and res: "path_resolve (process_cwd e) [p] = render ts" by blast
  have "prefix rs ts"
  proof (rule ccontr)
    assume out: "\<not> prefix rs ts"
    then have ne: "render rs \<noteq> render ts" using render_inj[OF rs ts] by auto
    then have "REPO_ROOT e \<noteq> p" using root res path_resolve_idem[OF rs] by metis
    moreover from relative_segments_not_prefix[OF out] obtain rest
      where rest: "relative_segments rs ts = ''..'' # rest" by blast
    ultimately have rel: "path_relative (process_cwd e) (REPO_ROOT e) p = join_with ''/'' (''..'' # rest)"
      using ne by (simp add: path_relative_def root res path_resolve_idem[OF rs]
          path_segments_render rs ts Let_def)
    have pre: "prefix ''..'' (join_with ''/'' (''..'' # rest))" by (rule join_with_Cons_prefix)
    then have "join_with ''/'' (''..'' # rest) \<noteq> []" by auto
    with rel pre have "\<not> isWithinRepo e p" by (simp add: isWithinRepo_def startsWith_def)
    with within show False by contradiction
  qed
  then show ?thesis
    by (simp add: lexically_within_def root res path_segments_render rs ts)
qed

lemma hd_split_on_dot:
  "prefix ''.'' (hd (split_on CHR ''/'' p)) \<longleftrightarrow> prefix ''.'' p"
  by (cases p) (auto split: list.splits)

lemma tl_split_on_dot:
  "list_ex (prefix ''.'') (tl (split_on CHR ''/'' p)) \<longleftrightarrow> sublist ''/.'' p"
proof (induction p)
  case Nil
  then show ?case by simp
next
  case (Cons x xs)
  show ?case
  proof (cases "x = CHR ''/''")
    case True
    have "list_ex (prefix ''.'') (split_on CHR ''/'' xs)
            \<longleftrightarrow> prefix ''.'' (hd (split_on CHR ''/'' xs)) \<or> list_ex (prefix ''.'') (tl (split_on CHR ''/'' xs))"
      by (cases "split_on CHR ''/'' xs") auto
    then show ?thesis using True Cons.IH
      by (simp add: hd_split_on_dot sublist_Cons_right)
  next
    case False
    have "tl (split_on CHR ''/'' (x # xs)) = tl (split_on CHR ''/'' xs)"
      using False by (cases "split_on CHR ''/'' xs") auto
    then show ?thesis using False Cons.IH by (simp add: sublist_Cons_right)
  qed
qed

lemma isHidden_segments:
  "isHiddenRepoRelativePath p \<longleftrightarrow> (\<exists>segment \<in> set (split_on CHR ''/'' p). startsWith segment ''.'')"
  by (auto simp: isHiddenRepoRelativePath_def list_ex_iff startsWith_def)

lemma isHidden_has_dot_segment: "isHiddenRepoRelativePath p \<longleftrightarrow> has_dot_segment p"
proof -
  have "list_ex (prefix ''.'') (split_on CHR ''/'' p)
          \<longleftrightarrow> prefix ''.'' (hd (split_on CHR ''/'' p)) \<or> list_ex (prefix ''.'') (tl (split_on CHR ''/'' p))"
    by (cases "split_on CHR ''/'' p") auto
  then have "list_ex (prefix ''.'') (split_on CHR ''/'' p) \<longleftrightarrow> has_dot_segment p"
    by (simp add: hd_split_on_dot tl_split_on_dot has_dot_segment_def)
  moreover have "(\<lambda>segment. startsWith segment ''.'') = prefix ''.''"
    by (rule ext) (simp add: startsWith_def)
  ultimately show ?thesis
    by (cases "p = []") (auto simp: isHiddenRepoRelativePath_def has_dot_segment_def)
qed

lemma split_on_append_sep:
  "split_on c (a @ c # b) = split_on c a @ split_on c b"
  by (induction a) (auto split: list.splits)

lemma is_name_char_not_slash: "is_name_char c \<Longrightarrow> c \<noteq> CHR ''/''"
  by (auto simp: is_name_char_def)

lemma validate_None_iff:
  "validateUploadFilename fileName = None \<longleftrightarrow>
     \<not> list_ex is_js_space fileName \<and> \<not> startsWith fileName ''.'' \<and>
     list_all is_name_char fileName \<and>
     toLowerCase (path_extname fileName) \<in> set ALLOWED_IMAGE_EXTENSIONS"
proof -
  have e: "fileName = [] \<Longrightarrow> toLowerCase (path_extname fileName) \<notin> set ALLOWED_IMAGE_EXTENSIONS"
    by (simp add: path_extname_def path_basename_def toLowerCase_def ALLOWED_IMAGE_EXTENSIONS_def)
  have n: "[] \<notin> set ALLOWED_IMAGE_EXTENSIONS"
    by (simp add: ALLOWED_IMAGE_EXTENSIONS_def)
  have d: "fileName = ''.'' \<or> fileName = ''..'' \<Longrightarrow> startsWith fileName ''.''"
    by (auto simp: startsWith_def)
  show ?thesis
    using e n d by (auto simp: validateUploadFilename_def Let_def)
qed

lemma validated_name_clean:
  assumes "validateUploadFilename n = None"
  shows "clean_segment n" and "\<not> path_isAbsolute n" and "\<not> startsWith n ''..''"
proof -
  from assms have ns: "\<not> startsWith n ''.''" and all: "list_all is_name_char n"
    and ext: "toLowerCase (path_extname n) \<in> set ALLOWED_IMAGE_EXTENSIONS"
    by (simp_all add: validate_None_iff)
  have ne: "n \<noteq> []"
    using ext by (auto simp: path_extname_def path_basename_def toLowerCase_def ALLOWED_IMAGE_EXTENSIONS_def)
  have sl: "CHR ''/'' \<notin> set n"
    using all is_name_char_not_slash by (auto simp: list_all_iff)
  show "clean_segment n"
    using ns ne sl by (auto simp: clean_segment_def startsWith_def)
  show "\<not> path_isAbsolute n"
    using sl by (cases n) (auto simp: path_isAbsolute_def)
  show "\<not> startsWith n ''..''"
    using ns by (cases n) (auto simp: startsWith_def)
qed

lemma path_resolve_child:
  assumes ds: "\<forall>seg \<in> set ds. clean_segment seg" and n: "clean_segment n"
  shows "path_resolve wd [render ds, n] = render (ds @ [n])"
proof -
  have nabs: "\<not> path_isAbsolute n" using n by (cases n) (auto simp: clean_segment_def path_isAbsolute_def)
  have nne: "n \<noteq> []" using n by (simp add: clean_segment_def)
  have loop: "resolve_loop (rev [wd, render ds, n]) [] = (render ds @ ''/'' @ n @ ''/'', True)"
    using nabs nne by simp
  have "split_on CHR ''/'' (render ds @ CHR ''/'' # (n @ ''/''))
          = split_on CHR ''/'' (render ds) @ split_on CHR ''/'' (n @ ''/'')"
    by (rule split_on_append_sep)
  moreover have "split_on CHR ''/'' (n @ ''/'') = [n, []]"
    using n by (simp add: split_on_snoc split_on_free clean_segment_def)
  ultimately have "normalizeString False [] (split_on CHR ''/'' (render ds @ ''/'' @ n @ ''/'')) = ds @ [n]"
    using ds n by (auto simp: split_render normalizeString_append normalizeString_clean_id clean_segment_def)
  then show ?thesis
    unfolding path_resolve_def using loop by (simp add: render_def)
qed

lemma path_relative_child:
  assumes ds: "\<forall>seg \<in> set ds. clean_segment seg" and n: "clean_segment n"
  shows "path_relative wd (render ds) (render (ds @ [n])) = n"
proof -
  have c: "\<forall>seg \<in> set (ds @ [n]). clean_segment seg" using ds n by auto
  show ?thesis
    using path_relative_render[OF ds c, of wd] by (simp add: relative_segments_prefix)
qed


lemma path_basename_no_slash: "CHR ''/'' \<notin> set n \<Longrightarrow> path_basename n = n"
proof -
  assume a: "CHR ''/'' \<notin> set n"
  then have d: "dropWhile (\<lambda>c. c = CHR ''/'') (rev n) = rev n"
    by (cases "rev n") (auto simp: dropWhile_eq_Cons_conv)
  have t: "takeWhile (\<lambda>c. c \<noteq> CHR ''/'') (rev n) = rev n"
    by (rule takeWhile_eq_all_conv[THEN iffD2]) (use a in auto)
  show ?thesis unfolding path_basename_def d t by simp
qed

lemma lower_char_dot: "lower_char c = CHR ''.'' \<longleftrightarrow> c = CHR ''.''"
  by (auto simp: lower_char_def split: option.splits if_splits)

lemma allowed_shape:
  "x \<in> set ALLOWED_IMAGE_EXTENSIONS \<Longrightarrow> \<exists>e. x = CHR ''.'' # e \<and> CHR ''.'' \<notin> set e"
  by (auto simp: ALLOWED_IMAGE_EXTENSIONS_def)

lemma lowered_allowed_shape:
  assumes "toLowerCase ext \<in> set ALLOWED_IMAGE_EXTENSIONS"
  shows "\<exists>e. ext = CHR ''.'' # e \<and> CHR ''.'' \<notin> set e"
proof -
  from allowed_shape[OF assms] obtain l where l: "toLowerCase ext = CHR ''.'' # l" "CHR ''.'' \<notin> set l"
    by blast
  then obtain c e where ce: "ext = c # e" "lower_char c = CHR ''.''" "map lower_char e = l"
    by (auto simp: toLowerCase_def)
  have "CHR ''.'' \<notin> set e"
  proof
    assume "CHR ''.'' \<in> set e"
    then have "lower_char CHR ''.'' \<in> set (map lower_char e)" by (simp only: set_map) blast
    moreover have "lower_char CHR ''.'' = CHR ''.''" by (simp add: lower_char_def)
    ultimately show False using ce(3) l(2) by simp
  qed
  then show ?thesis using ce by (auto simp: lower_char_dot)
qed

lemma path_extname_of_suffix:
  assumes "CHR ''/'' \<notin> set (stem @ CHR ''.'' # e)" and "stem \<noteq> []" and "CHR ''.'' \<notin> set e"
    and "\<not> startsWith (stem @ CHR ''.'' # e) ''.''"
  shows "path_extname (stem @ CHR ''.'' # e) = CHR ''.'' # e"
proof -
  let ?n = "stem @ CHR ''.'' # e"
  have b: "path_basename ?n = ?n" using assms(1) by (rule path_basename_no_slash)
  have "takeWhile (\<lambda>c. c \<noteq> CHR ''.'') (rev e @ CHR ''.'' # rev stem)
          = rev e @ takeWhile (\<lambda>c. c \<noteq> CHR ''.'') (CHR ''.'' # rev stem)"
    by (rule takeWhile_append2) (use assms(3) in auto)
  then have tw: "takeWhile (\<lambda>c. c \<noteq> CHR ''.'') (rev ?n) = rev e"
    by simp
  have "?n \<noteq> ''..''" using assms(4) by (auto simp: startsWith_def)
  then show ?thesis using b tw assms(2) by (simp add: path_extname_def Let_def)
qed

lemma path_extname_split:
  assumes "path_extname n \<noteq> []" and "CHR ''/'' \<notin> set n"
  shows "\<exists>stem. stem \<noteq> [] \<and> n = stem @ path_extname n"
proof -
  let ?P = "\<lambda>c. c \<noteq> CHR ''.''"
  have b: "path_basename n = n" using assms(2) by (rule path_basename_no_slash)
  from assms(1) b have dot: "CHR ''.'' \<in> set n" and len: "length (takeWhile ?P (rev n)) + 1 \<noteq> length n"
    and ext: "path_extname n = CHR ''.'' # rev (takeWhile ?P (rev n))"
    by (auto simp: path_extname_def Let_def split: if_splits)
  from dot have "dropWhile ?P (rev n) \<noteq> []" by (auto simp: dropWhile_eq_Nil_conv)
  then obtain c rest where cr: "dropWhile ?P (rev n) = c # rest"
    by (cases "dropWhile ?P (rev n)") auto
  then have "\<not> ?P c" using hd_dropWhile[of ?P "rev n"] by auto
  then have rest: "dropWhile ?P (rev n) = CHR ''.'' # rest" using cr by simp
  have "rev n = takeWhile ?P (rev n) @ dropWhile ?P (rev n)" by simp
  then have "rev n = takeWhile ?P (rev n) @ CHR ''.'' # rest" using rest by simp
  then have "rev (rev n) = rev (takeWhile ?P (rev n) @ CHR ''.'' # rest)" by (rule arg_cong)
  then have n: "n = rev rest @ CHR ''.'' # rev (takeWhile ?P (rev n))" by simp
  have "rev rest \<noteq> []"
  proof
    assume "rev rest = []"
    with n have "n = CHR ''.'' # rev (takeWhile ?P (rev n))" by simp
    then have "length n = length (CHR ''.'' # rev (takeWhile ?P (rev n)))" by (rule arg_cong)
    with len show False by simp
  qed
  then show ?thesis using n ext by auto
qed

lemma allowed_extension_iff:
  assumes "CHR ''/'' \<notin> set n" and "\<not> startsWith n ''.''"
  shows "toLowerCase (path_extname n) \<in> set ALLOWED_IMAGE_EXTENSIONS \<longleftrightarrow> has_allowed_extension n"
proof
  assume a: "toLowerCase (path_extname n) \<in> set ALLOWED_IMAGE_EXTENSIONS"
  then have "path_extname n \<noteq> []"
    by (auto simp: toLowerCase_def ALLOWED_IMAGE_EXTENSIONS_def)
  from path_extname_split[OF this assms(1)] a show "has_allowed_extension n"
    unfolding has_allowed_extension_def by blast
next
  assume "has_allowed_extension n"
  then obtain stem ext where se: "n = stem @ ext" "stem \<noteq> []"
    "toLowerCase ext \<in> set ALLOWED_IMAGE_EXTENSIONS"
    unfolding has_allowed_extension_def by blast
  from lowered_allowed_shape[OF se(3)] obtain e where e: "ext = CHR ''.'' # e" "CHR ''.'' \<notin> set e"
    by blast
  have "path_extname n = ext"
    using path_extname_of_suffix[of stem e] assms se(1,2) e by simp
  then show "toLowerCase (path_extname n) \<in> set ALLOWED_IMAGE_EXTENSIONS" using se(3) by simp
qed

lemma validate_None_rules:
  "validateUploadFilename fileName = None \<longleftrightarrow> \<not> violates_filename_rules fileName"
proof (cases "list_all is_name_char fileName \<and> \<not> startsWith fileName ''.''")
  case True
  then have "CHR ''/'' \<notin> set fileName"
    using is_name_char_not_slash by (auto simp: list_all_iff)
  from allowed_extension_iff[OF this] True show ?thesis
    by (auto simp: validate_None_iff violates_filename_rules_def)
next
  case False
  then show ?thesis by (auto simp: validate_None_iff violates_filename_rules_def)
qed



lemma is_blocked_case:
  "(case (case st ip of None \<Rightarrow> None
         | Some existing \<Rightarrow> if blockedUntil existing \<noteq> 0 \<and> blockedUntil existing > now
                     then Some existing else None) of None \<Rightarrow> a | Some existing \<Rightarrow> b existing)
   = (if is_blocked st ip now then b (the (st ip)) else a)"
  by (auto simp: is_blocked_def split: option.splits)

lemma gateway_blocked:
  assumes "BASIC_AUTH_PASSWORD e \<noteq> []" and "is_blocked st (clientIPAddress req) (now_entry clk)"
  shows "gateway rt e st clk req res
           = (Responded (too_many_failures res
                (ceil_seconds (blockedUntil (the (st (clientIPAddress req))) - now_entry clk))), st)"
  using assms by (simp add: gateway_def auth_middleware_def Let_def is_blocked_case too_many_failures_def)

lemma gateway_frame:
  assumes "clientIPAddress req \<noteq> ip"
  shows "snd (gateway rt e st clk req res) ip = st ip"
  using assms
  by (auto simp: gateway_def auth_middleware_def Let_def is_blocked_case recordAuthFailure_def
      split: option.splits prod.splits if_splits)

lemma gateway_failure:
  assumes "BASIC_AUTH_PASSWORD e \<noteq> []" and "\<not> is_blocked st (clientIPAddress req) (now_entry clk)"
    and "\<not> credentials_ok rt e req"
  shows "snd (gateway rt e st clk req res) = snd (recordAuthFailure st (now_record clk) req)"
  using assms
  by (auto simp: gateway_def auth_middleware_def Let_def is_blocked_case split: option.splits prod.splits)

lemma serve_all_append:
  "serve_all rt e st (xs @ ys) = serve_all rt e (serve_all rt e st xs) ys"
  by (induction xs arbitrary: st) auto

lemma serve_all_frame:
  "requests_from ip reqs = [] \<Longrightarrow> serve_all rt e st reqs ip = st ip"
proof (induction reqs arbitrary: st)
  case Nil
  then show ?case by simp
next
  case (Cons cr reqs)
  obtain clk req where cr: "cr = (clk, req)" by (cases cr)
  from Cons.prems have other: "clientIPAddress req \<noteq> ip" and rest: "requests_from ip reqs = []"
    by (auto simp: requests_from_def cr split: if_splits)
  show ?case using Cons.IH[OF rest] gateway_frame[OF other] by (simp add: cr)
qed

lemma serve_all_blocked:
  assumes pw: "BASIC_AUTH_PASSWORD e \<noteq> []"
    and rec: "st ip = Some r" and nz: "blockedUntil r \<noteq> 0"
    and early: "\<forall>cr \<in> set (requests_from ip later). now_entry (fst cr) < blockedUntil r"
  shows "serve_all rt e st later ip = Some r"
  using rec early
proof (induction later arbitrary: st)
  case Nil
  then show ?case by simp
next
  case (Cons cr later)
  obtain clk req where cr: "cr = (clk, req)" by (cases cr)
  have rest: "\<forall>cr \<in> set (requests_from ip later). now_entry (fst cr) < blockedUntil r"
    using Cons.prems(2) by (auto simp: requests_from_def)
  show ?case
  proof (cases "clientIPAddress req = ip")
    case True
    then have "now_entry clk < blockedUntil r" using Cons.prems(2) by (auto simp: requests_from_def cr)
    then have "is_blocked st (clientIPAddress req) (now_entry clk)"
      using True Cons.prems(1) nz by (simp add: is_blocked_def)
    from gateway_blocked[OF pw this] show ?thesis
      using Cons.IH[of st, OF Cons.prems(1) rest] by (simp add: cr)
  next
    case False
    from gateway_frame[OF False] have "snd (gateway rt e st clk req fresh_response) ip = Some r"
      using Cons.prems(1) by simp
    from Cons.IH[of "snd (gateway rt e st clk req fresh_response)", OF this rest]
    show ?thesis by (simp add: cr)
  qed
qed

lemma serve_all_warming:
  assumes pw: "BASIC_AUTH_PASSWORD e \<noteq> []"
    and wrong: "\<forall>cr \<in> set (requests_from ip reqs). \<not> credentials_ok rt e (snd cr)"
    and window: "\<forall>cr \<in> set (requests_from ip reqs). now_record (fst cr) - w < AUTH_WINDOW_MS"
    and count: "k + int (length (requests_from ip reqs)) = AUTH_MAX_ATTEMPTS"
    and inv: "(k = 0 \<and> st ip = None \<and> w = now_record (fst (hd (requests_from ip reqs))))
              \<or> (1 \<le> k \<and> k < AUTH_MAX_ATTEMPTS
                  \<and> st ip = Some \<lparr>windowStartAt = w, failures = k, blockedUntil = 0\<rparr>)"
  shows "serve_all rt e st reqs ip
           = Some \<lparr>windowStartAt = now_record (fst (last (requests_from ip reqs))),
                   failures = 0,
                   blockedUntil = now_record (fst (last (requests_from ip reqs))) + AUTH_BLOCK_MS\<rparr>"
  using wrong window count inv
proof (induction reqs arbitrary: st k)
  case Nil
  then show ?case by (auto simp: requests_from_def AUTH_MAX_ATTEMPTS_def)
next
  case (Cons cr reqs)
  obtain clk req where cr: "cr = (clk, req)" by (cases cr)
  let ?st' = "snd (gateway rt e st clk req fresh_response)"
  show ?case
  proof (cases "clientIPAddress req = ip")
    case False
    then have same: "requests_from ip (cr # reqs) = requests_from ip reqs"
      by (simp add: requests_from_def cr)
    have "?st' ip = st ip" using gateway_frame[OF False] by simp
    then have inv': "(k = 0 \<and> ?st' ip = None \<and> w = now_record (fst (hd (requests_from ip reqs))))
              \<or> (1 \<le> k \<and> k < AUTH_MAX_ATTEMPTS
                  \<and> ?st' ip = Some \<lparr>windowStartAt = w, failures = k, blockedUntil = 0\<rparr>)"
      using Cons.prems(4) same by simp
    from Cons.IH[of k ?st', OF _ _ _ inv'] Cons.prems(1,2,3) same show ?thesis by (simp add: cr)
  next
    case True
    then have att: "requests_from ip (cr # reqs) = cr # requests_from ip reqs"
      by (simp add: requests_from_def cr)
    have nb: "\<not> is_blocked st (clientIPAddress req) (now_entry clk)"
      using Cons.prems(4) True by (auto simp: is_blocked_def)
    have nc: "\<not> credentials_ok rt e req" using Cons.prems(1) att by (simp add: cr)
    have st': "?st' = snd (recordAuthFailure st (now_record clk) req)"
      by (rule gateway_failure[OF pw nb nc])
    have inw: "now_record clk - w < AUTH_WINDOW_MS" using Cons.prems(2) att by (simp add: cr)
    have wrong': "\<forall>cr \<in> set (requests_from ip reqs). \<not> credentials_ok rt e (snd cr)"
      using Cons.prems(1) att by simp
    have window': "\<forall>cr \<in> set (requests_from ip reqs). now_record (fst cr) - w < AUTH_WINDOW_MS"
      using Cons.prems(2) att by simp
    have count': "(k + 1) + int (length (requests_from ip reqs)) = AUTH_MAX_ATTEMPTS"
      using Cons.prems(3) att by simp
    consider (first) "k = 0" | (mid) "1 \<le> k" "k + 1 < AUTH_MAX_ATTEMPTS" | (final) "1 \<le> k" "k + 1 = AUTH_MAX_ATTEMPTS"
    proof -
      assume h: "k = 0 \<Longrightarrow> thesis" "\<lbrakk>1 \<le> k; k + 1 < AUTH_MAX_ATTEMPTS\<rbrakk> \<Longrightarrow> thesis"
        "\<lbrakk>1 \<le> k; k + 1 = AUTH_MAX_ATTEMPTS\<rbrakk> \<Longrightarrow> thesis"
      from Cons.prems(4) have "k = 0 \<or> (1 \<le> k \<and> k + 1 < AUTH_MAX_ATTEMPTS)
          \<or> (1 \<le> k \<and> k + 1 = AUTH_MAX_ATTEMPTS)" by linarith
      with h show thesis by blast
    qed
    then show ?thesis
    proof cases
      case first
      then have "st ip = None" and w: "w = now_record clk"
        using Cons.prems(4) att by (auto simp: cr)
      then have "?st' ip = Some \<lparr>windowStartAt = w, failures = 1, blockedUntil = 0\<rparr>"
        using True st' by (simp add: recordAuthFailure_def Let_def)
      then have inv': "(k + 1 = 0 \<and> ?st' ip = None \<and> w = now_record (fst (hd (requests_from ip reqs))))
              \<or> (1 \<le> k + 1 \<and> k + 1 < AUTH_MAX_ATTEMPTS
                  \<and> ?st' ip = Some \<lparr>windowStartAt = w, failures = k + 1, blockedUntil = 0\<rparr>)"
        using first by (simp add: AUTH_MAX_ATTEMPTS_def)
      have ne: "requests_from ip reqs \<noteq> []"
        using count' first by (auto simp: AUTH_MAX_ATTEMPTS_def)
      from Cons.IH[of "k + 1" ?st', OF wrong' window' count' inv'] show ?thesis
        using att ne by (simp add: cr)
    next
      case mid
      then have "st ip = Some \<lparr>windowStartAt = w, failures = k, blockedUntil = 0\<rparr>"
        using Cons.prems(4) by auto
      then have "?st' ip = Some \<lparr>windowStartAt = w, failures = k + 1, blockedUntil = 0\<rparr>"
        using True st' inw mid by (simp add: recordAuthFailure_def Let_def)
      then have inv': "(k + 1 = 0 \<and> ?st' ip = None \<and> w = now_record (fst (hd (requests_from ip reqs))))
              \<or> (1 \<le> k + 1 \<and> k + 1 < AUTH_MAX_ATTEMPTS
                  \<and> ?st' ip = Some \<lparr>windowStartAt = w, failures = k + 1, blockedUntil = 0\<rparr>)"
        using mid by simp
      have ne: "requests_from ip reqs \<noteq> []"
        using count' mid by auto
      from Cons.IH[of "k + 1" ?st', OF wrong' window' count' inv'] show ?thesis
        using att ne by (simp add: cr)
    next
      case final
      then have "st ip = Some \<lparr>windowStartAt = w, failures = k, blockedUntil = 0\<rparr>"
        using Cons.prems(4) by auto
      then have blocked: "?st' ip = Some \<lparr>windowStartAt = now_record clk, failures = 0,
                             blockedUntil = now_record clk + AUTH_BLOCK_MS\<rparr>"
        using True st' inw final by (simp add: recordAuthFailure_def Let_def)
      have none: "requests_from ip reqs = []" using count' final by simp
      from serve_all_frame[OF none] blocked show ?thesis
        using att none by (simp add: cr)
    qed
  qed
qed

lemma ceil_seconds_pos: "0 < ms \<Longrightarrow> 0 < ceil_seconds ms"
proof -
  assume "0 < ms"
  then have "(- ms) div 1000 < 0" by (intro div_neg_pos_less0) auto
  then show ?thesis by (simp add: ceil_seconds_def)
qed

lemma resolveRepoPath_undefined: "resolveRepoPath e None = resolveRepoPath e (Some [])"
  by (simp add: resolveRepoPath_def)

section \<open>Evaluation on concrete inputs\<close>

lemmas path_eval =
  path_resolve_def REPO_ROOT_def path_isAbsolute_def path_relative_def path_segments_def
  lexically_within_def isWithinRepo_def resolveRepoPath_def js_trim_def is_js_space_def
  startsWith_def Let_def

lemmas access_eval =
  toRepoRelativePath_def isHiddenRepoRelativePath_def isBlockedHiddenRepoRelativePath_def
  assertPathAccessible_def getGitIgnoredPathSet_def parseGitIgnoredStdout_def js_unique_def
  ensureFile_def ensureDirectory_def has_dot_segment_def failed_without_output_def

lemmas upload_eval =
  sanitizeUploadFilename_def validateUploadFilename_def path_basename_def path_extname_def
  is_control_char_def is_name_char_def toLowerCase_def lower_char_def
  ALLOWED_IMAGE_EXTENSIONS_def storage_filename_def upload_written_file_def path_join_def
  path_normalize_def resolveNamedImagePath_def

lemmas request_eval =
  example_runtime_def example_env_def example_request_def example_clock_def
  BASIC_AUTH_PASSWORD_def credentials_ok_def parseBasicAuthPassword_def
  constantTimePasswordMatch_def utf8_bytes_def clientIPAddress_def startsWith_def js_trim_def
  is_js_space_def Let_def

section \<open>Path sandbox: lexical containment\<close>

text \<open>
  Claim C1, as amended. The working directory of the process is absolute. For every raw
  path without a null character: when the path, trimmed and resolved against the root
  as \<open>resolveRepoPath\<close> does it, lies outside the root (the segments of the root are
  not the leading segments of the result), \<open>resolveRepoPath\<close> fails with "Path escapes
  repository root". And for every raw path whatsoever, a path that \<open>resolveRepoPath\<close>
  returns lies within the root.
\<close>

theorem resolveRepoPath_escape:
  assumes "path_isAbsolute (process_cwd e)"
  shows "(CHR 0x00 \<notin> set raw \<and>
          \<not> lexically_within (REPO_ROOT e) (path_resolve (process_cwd e) [REPO_ROOT e, js_trim raw])
           \<longrightarrow> resolveRepoPath e (Some raw) = Inl (Error ''Path escapes repository root''))
       \<and> (\<forall>p. resolveRepoPath e (Some raw) = Inr p \<longrightarrow> lexically_within (REPO_ROOT e) p)"
proof -
  let ?resolved = "path_resolve (process_cwd e) [REPO_ROOT e, js_trim raw]"
  from path_resolve_render[OF assms] obtain ts
    where ts: "\<forall>seg \<in> set ts. clean_segment seg" and res: "?resolved = render ts" by blast
  have "path_resolve (process_cwd e) [?resolved] = ?resolved"
    using path_resolve_idem[OF ts] res by simp
  then have within: "isWithinRepo e ?resolved \<Longrightarrow> lexically_within (REPO_ROOT e) ?resolved"
    using isWithinRepo_resolved[OF assms, of ?resolved] by simp
  have nonul: "CHR 0x00 \<notin> set raw \<Longrightarrow> CHR 0x00 \<notin> set (js_trim raw)"
    using js_trim_set by blast
  show ?thesis
    using within nonul by (auto simp: resolveRepoPath_def Let_def split: if_splits)
qed

theorem resolveRepoPath_escape_witness:
  "path_isAbsolute (process_cwd \<lparr>process_cwd = ''/srv'', env_REPO_ROOT = Some ''/repo'', env_REMOTE_WS_PASSWORD = None\<rparr>)
   \<and> CHR 0x00 \<notin> set ''../x''
   \<and> \<not> lexically_within ''/repo'' ''/x''
   \<and> resolveRepoPath \<lparr>process_cwd = ''/srv'', env_REPO_ROOT = Some ''/repo'', env_REMOTE_WS_PASSWORD = None\<rparr> (Some ''../x'')
       = Inl (Error ''Path escapes repository root'')
   \<and> resolveRepoPath \<lparr>process_cwd = ''/srv'', env_REPO_ROOT = Some ''/repo'', env_REMOTE_WS_PASSWORD = None\<rparr> (Some ''a/../b'')
       = Inr ''/repo/b''
   \<and> lexically_within ''/repo'' ''/repo/b''"
proof -
  let ?e = "\<lparr>process_cwd = ''/srv'', env_REPO_ROOT = Some ''/repo'', env_REMOTE_WS_PASSWORD = None\<rparr>"
  have wd: "path_isAbsolute (process_cwd ?e)" by (simp add: path_isAbsolute_def)
  have root: "REPO_ROOT ?e = ''/repo''" by (simp add: path_eval)
  have out: "path_resolve (process_cwd ?e) [REPO_ROOT ?e, js_trim ''../x''] = ''/x''"
    by (simp add: path_eval)
  have nw: "\<not> lexically_within ''/repo'' ''/x''" by (simp add: path_eval)
  have inr: "resolveRepoPath ?e (Some ''a/../b'') = Inr ''/repo/b''" by (simp add: path_eval)
  from resolveRepoPath_escape[OF wd, of "''../x''"] resolveRepoPath_escape[OF wd, of "''a/../b''"]
  show ?thesis using wd root out nw inr by simp
qed

text \<open>
  Claim C1 as stated fails where the escaping path also holds a null character: the
  raw path \<open>../\<close> followed by the character 0 resolves outside the root \<open>/repo\<close>, and
  \<open>resolveRepoPath\<close> fails with "Path contains null byte", not with the escape error.
\<close>

theorem resolveRepoPath_escape_counterexample:
  "\<not> lexically_within
        (REPO_ROOT \<lparr>process_cwd = ''/srv'', env_REPO_ROOT = Some ''/repo'', env_REMOTE_WS_PASSWORD = None\<rparr>)
        (path_resolve ''/srv''
           [REPO_ROOT \<lparr>process_cwd = ''/srv'', env_REPO_ROOT = Some ''/repo'', env_REMOTE_WS_PASSWORD = None\<rparr>,
            js_trim [CHR ''.'', CHR ''.'', CHR ''/'', CHR 0x00]])
   \<and> resolveRepoPath \<lparr>process_cwd = ''/srv'', env_REPO_ROOT = Some ''/repo'', env_REMOTE_WS_PASSWORD = None\<rparr>
         (Some [CHR ''.'', CHR ''.'', CHR ''/'', CHR 0x00])
       = Inl (Error ''Path contains null byte'')
   \<and> Error ''Path contains null byte'' \<noteq> Error ''Path escapes repository root''"
  by (simp add: path_eval)

section \<open>Path sandbox: null characters\<close>

text \<open>
  Claim C8, as amended. For every raw path that contains the null character (code 0),
  \<open>resolveRepoPath\<close> fails with "Path contains null byte". The function takes no file
  system: the failure is decided on the text alone.
\<close>

theorem resolveRepoPath_null:
  "CHR 0x00 \<in> set raw \<Longrightarrow> resolveRepoPath e (Some raw) = Inl (Error ''Path contains null byte'')"
  by (simp add: resolveRepoPath_def NUL_survives_trim)

theorem resolveRepoPath_null_witness:
  "CHR 0x00 \<in> set [CHR ''a'', CHR 0x00, CHR ''b'']
   \<and> resolveRepoPath \<lparr>process_cwd = ''/srv'', env_REPO_ROOT = Some ''/repo'', env_REMOTE_WS_PASSWORD = None\<rparr>
        (Some [CHR ''a'', CHR 0x00, CHR ''b'']) = Inl (Error ''Path contains null byte'')"
proof -
  have h: "CHR 0x00 \<in> set [CHR ''a'', CHR 0x00, CHR ''b'']" by simp
  show ?thesis using h resolveRepoPath_null[OF h] by simp
qed

text \<open>
  Claim C8 as stated fails for a control character other than the null character: the
  raw path \<open>a\<close>, character 1, \<open>b\<close> is resolved to a path under the root.
\<close>

theorem resolveRepoPath_control_counterexample:
  "is_control_char (CHR 0x01)
   \<and> CHR 0x01 \<in> set [CHR ''a'', CHR 0x01, CHR ''b'']
   \<and> resolveRepoPath \<lparr>process_cwd = ''/srv'', env_REPO_ROOT = Some ''/repo'', env_REMOTE_WS_PASSWORD = None\<rparr>
        (Some [CHR ''a'', CHR 0x01, CHR ''b''])
       = Inr [CHR ''/'', CHR ''r'', CHR ''e'', CHR ''p'', CHR ''o'', CHR ''/'', CHR ''a'', CHR 0x01, CHR ''b'']"
  by (simp add: path_eval is_control_char_def)

section \<open>Path sandbox: symbolic links\<close>

text \<open>
  Claim C2. The target exists (\<open>fs.stat\<close> answers) and its real path, as
  \<open>fs.realpath\<close> gives it, lies outside the root. Then \<open>ensureFile\<close> on a regular file
  and \<open>ensureDirectory\<close> on a directory fail with "Resolved path escapes repository
  root", whatever the path that was asked for and whatever the options; and neither
  check succeeds on a target of any kind.
\<close>

theorem ensure_rejects_escaping_real_path:
  assumes wd: "path_isAbsolute (process_cwd e)"
    and st: "fs_stat fs absPath = Some st"
    and rp: "fs_realpath fs absPath = Some realPath"
    and out: "\<not> lexically_within (REPO_ROOT e) (path_resolve (process_cwd e) [realPath])"
  shows "(kind st = RegularFile \<longrightarrow>
            ensureFile e fs git_check_ignore absPath options
              = Inl (Error ''Resolved path escapes repository root''))
       \<and> (kind st = Directory \<longrightarrow>
            ensureDirectory e fs git_check_ignore absPath options
              = Inl (Error ''Resolved path escapes repository root''))
       \<and> ensureFile e fs git_check_ignore absPath options \<noteq> Inr ()
       \<and> ensureDirectory e fs git_check_ignore absPath options \<noteq> Inr ()"
proof -
  have "\<not> isWithinRepo e realPath" using isWithinRepo_resolved[OF wd] out by blast
  then show ?thesis using st rp by (simp add: ensureFile_def ensureDirectory_def)
qed

theorem ensure_rejects_escaping_real_path_witness:
  "lexically_within ''/repo'' ''/repo/link''
   \<and> \<not> lexically_within ''/repo'' ''/etc/passwd''
   \<and> ensureFile
        \<lparr>process_cwd = ''/srv'', env_REPO_ROOT = Some ''/repo'', env_REMOTE_WS_PASSWORD = None\<rparr>
        \<lparr>fs_stat = (\<lambda>p. if p = ''/repo/link'' then Some \<lparr>kind = RegularFile, size_bytes = 7, mtimeMs = 0\<rparr> else None),
         fs_realpath = (\<lambda>p. if p = ''/repo/link'' then Some ''/etc/passwd'' else None),
         fs_existsSync = (\<lambda>p. p = ''/repo/link'')\<rparr>
        (\<lambda>batch. ExecOk []) ''/repo/link'' no_options
       = Inl (Error ''Resolved path escapes repository root'')
   \<and> ensureDirectory
        \<lparr>process_cwd = ''/srv'', env_REPO_ROOT = Some ''/repo'', env_REMOTE_WS_PASSWORD = None\<rparr>
        \<lparr>fs_stat = (\<lambda>p. if p = ''/repo/out'' then Some \<lparr>kind = Directory, size_bytes = 0, mtimeMs = 0\<rparr> else None),
         fs_realpath = (\<lambda>p. if p = ''/repo/out'' then Some ''/etc'' else None),
         fs_existsSync = (\<lambda>p. p = ''/repo/out'')\<rparr>
        (\<lambda>batch. ExecOk []) ''/repo/out'' \<lparr>allowHidden = True, allowGitIgnored = True\<rparr>
       = Inl (Error ''Resolved path escapes repository root'')"
proof -
  let ?e = "\<lparr>process_cwd = ''/srv'', env_REPO_ROOT = Some ''/repo'', env_REMOTE_WS_PASSWORD = None\<rparr>"
  let ?st1 = "\<lparr>kind = RegularFile, size_bytes = 7, mtimeMs = 0\<rparr>"
  let ?fs1 = "\<lparr>fs_stat = (\<lambda>p. if p = ''/repo/link'' then Some ?st1 else None),
         fs_realpath = (\<lambda>p. if p = ''/repo/link'' then Some ''/etc/passwd'' else None),
         fs_existsSync = (\<lambda>p. p = ''/repo/link'')\<rparr>"
  let ?st2 = "\<lparr>kind = Directory, size_bytes = 0, mtimeMs = 0\<rparr>"
  let ?fs2 = "\<lparr>fs_stat = (\<lambda>p. if p = ''/repo/out'' then Some ?st2 else None),
         fs_realpath = (\<lambda>p. if p = ''/repo/out'' then Some ''/etc'' else None),
         fs_existsSync = (\<lambda>p. p = ''/repo/out'')\<rparr>"
  have wd: "path_isAbsolute (process_cwd ?e)" by (simp add: path_isAbsolute_def)
  have s1: "fs_stat ?fs1 ''/repo/link'' = Some ?st1" by simp
  have r1: "fs_realpath ?fs1 ''/repo/link'' = Some ''/etc/passwd''" by simp
  have o1: "\<not> lexically_within (REPO_ROOT ?e) (path_resolve (process_cwd ?e) [''/etc/passwd''])"
    by (simp add: path_eval)
  have s2: "fs_stat ?fs2 ''/repo/out'' = Some ?st2" by simp
  have r2: "fs_realpath ?fs2 ''/repo/out'' = Some ''/etc''" by simp
  have o2: "\<not> lexically_within (REPO_ROOT ?e) (path_resolve (process_cwd ?e) [''/etc''])"
    by (simp add: path_eval)
  have l1: "lexically_within ''/repo'' ''/repo/link''" by (simp add: path_eval)
  have l2: "\<not> lexically_within ''/repo'' ''/etc/passwd''" by (simp add: path_eval)
  from ensure_rejects_escaping_real_path[OF wd s1 r1 o1, of "\<lambda>batch. ExecOk []" no_options]
       ensure_rejects_escaping_real_path[OF wd s2 r2 o2, of "\<lambda>batch. ExecOk []"
         "\<lparr>allowHidden = True, allowGitIgnored = True\<rparr>"]
  show ?thesis using l1 l2 by simp
qed

section \<open>Visibility filter: hidden paths\<close>

text \<open>
  Claim C5. A repo-relative path is classified hidden exactly when one of its segments
  (the pieces between slashes) starts with a dot; said without the split: when the
  path starts with a dot or holds a dot right after a slash. The empty path is not
  hidden. The access check fails with "Hidden paths are not accessible" exactly when
  the call does not allow hidden paths and the repo-relative form of its path is
  hidden.
\<close>

theorem hidden_path_rule:
  "(isHiddenRepoRelativePath p \<longleftrightarrow> (\<exists>segment \<in> set (split_on CHR ''/'' p). startsWith segment ''.''))
   \<and> (isHiddenRepoRelativePath p \<longleftrightarrow> has_dot_segment p)
   \<and> \<not> isHiddenRepoRelativePath []
   \<and> (assertPathAccessible e git_check_ignore absPath options = Inl (Error ''Hidden paths are not accessible'')
        \<longleftrightarrow> \<not> allowHidden options \<and> isHiddenRepoRelativePath (toRepoRelativePath e absPath))"
proof -
  have "\<not> isHiddenRepoRelativePath []" by (simp add: isHiddenRepoRelativePath_def)
  moreover have "assertPathAccessible e git_check_ignore absPath options = Inl (Error ''Hidden paths are not accessible'')
        \<longleftrightarrow> \<not> allowHidden options \<and> isHiddenRepoRelativePath (toRepoRelativePath e absPath)"
    by (simp add: assertPathAccessible_def isBlockedHiddenRepoRelativePath_def Let_def)
  ultimately show ?thesis
    using isHidden_segments[of p] isHidden_has_dot_segment[of p] by blast
qed

theorem hidden_path_rule_witness:
  "isHiddenRepoRelativePath ''src/.git/config''
   \<and> has_dot_segment ''src/.git/config''
   \<and> toRepoRelativePath \<lparr>process_cwd = ''/srv'', env_REPO_ROOT = Some ''/repo'', env_REMOTE_WS_PASSWORD = None\<rparr>
        ''/repo/.clipboard/a.png'' = ''.clipboard/a.png''
   \<and> assertPathAccessible \<lparr>process_cwd = ''/srv'', env_REPO_ROOT = Some ''/repo'', env_REMOTE_WS_PASSWORD = None\<rparr>
        (\<lambda>batch. ExecOk []) ''/repo/.clipboard/a.png'' no_options
       = Inl (Error ''Hidden paths are not accessible'')
   \<and> assertPathAccessible \<lparr>process_cwd = ''/srv'', env_REPO_ROOT = Some ''/repo'', env_REMOTE_WS_PASSWORD = None\<rparr>
        (\<lambda>batch. ExecOk []) ''/repo/.clipboard/a.png'' \<lparr>allowHidden = True, allowGitIgnored = True\<rparr>
       \<noteq> Inl (Error ''Hidden paths are not accessible'')"
proof -
  let ?e = "\<lparr>process_cwd = ''/srv'', env_REPO_ROOT = Some ''/repo'', env_REMOTE_WS_PASSWORD = None\<rparr>"
  have seg: "\<exists>segment \<in> set (split_on CHR ''/'' ''src/.git/config''). startsWith segment ''.''"
    by (simp add: startsWith_def)
  have rel: "toRepoRelativePath ?e ''/repo/.clipboard/a.png'' = ''.clipboard/a.png''"
    by (simp add: path_eval access_eval)
  have hid: "isHiddenRepoRelativePath ''.clipboard/a.png''"
    by (simp add: access_eval startsWith_def)
  from hidden_path_rule[of "''src/.git/config''" ?e "\<lambda>batch. ExecOk []" "''/repo/.clipboard/a.png''" no_options]
       hidden_path_rule[of "''src/.git/config''" ?e "\<lambda>batch. ExecOk []" "''/repo/.clipboard/a.png''"
          "\<lparr>allowHidden = True, allowGitIgnored = True\<rparr>"]
  show ?thesis using seg rel hid by (simp add: no_options_def)
qed

section \<open>Visibility filter: the ignore oracle fails\<close>

text \<open>
  Claim C9. When the call of the ignore oracle on a batch of paths fails without output,
  \<open>getGitIgnoredPathSet\<close> returns the empty set for that batch; and the access check
  of a single path then does not fail with "Gitignored paths are not accessible".
\<close>

theorem ignore_oracle_fail_open:
  "(failed_without_output (git_check_ignore (js_unique (filter (\<lambda>p. p \<noteq> []) repoRelativePaths)))
      \<longrightarrow> getGitIgnoredPathSet git_check_ignore repoRelativePaths = {})
   \<and> (failed_without_output (git_check_ignore [toRepoRelativePath e absPath])
      \<longrightarrow> assertPathAccessible e git_check_ignore absPath options
            \<noteq> Inl (Error ''Gitignored paths are not accessible''))"
  by (auto simp: getGitIgnoredPathSet_def assertPathAccessible_def js_unique_def Let_def
      failed_without_output_def parseGitIgnoredStdout_def)

theorem ignore_oracle_fail_open_witness:
  "failed_without_output ((\<lambda>batch. ExecError None) [''node_modules'', ''src''])
   \<and> getGitIgnoredPathSet (\<lambda>batch. ExecError None) [''node_modules'', [], ''src'', ''src''] = {}
   \<and> assertPathAccessible \<lparr>process_cwd = ''/srv'', env_REPO_ROOT = Some ''/repo'', env_REMOTE_WS_PASSWORD = None\<rparr>
        (\<lambda>batch. ExecError (Some [])) ''/repo/node_modules'' no_options = Inr ()"
proof -
  let ?e = "\<lparr>process_cwd = ''/srv'', env_REPO_ROOT = Some ''/repo'', env_REMOTE_WS_PASSWORD = None\<rparr>"
  have f1: "failed_without_output ((\<lambda>batch. ExecError None) [''node_modules'', ''src''])"
    by (simp add: failed_without_output_def)
  have f2: "failed_without_output
      ((\<lambda>batch. ExecError None) (js_unique (filter (\<lambda>p. p \<noteq> []) [''node_modules'', [], ''src'', ''src''])))"
    by (simp add: failed_without_output_def)
  have f3: "failed_without_output ((\<lambda>batch. ExecError (Some [])) [toRepoRelativePath ?e ''/repo/node_modules''])"
    by (simp add: failed_without_output_def)
  have ok: "assertPathAccessible ?e (\<lambda>batch. ExecError (Some [])) ''/repo/node_modules'' no_options = Inr ()"
    by (simp add: path_eval access_eval no_options_def)
  from ignore_oracle_fail_open[of "\<lambda>batch. ExecError None" "[''node_modules'', [], ''src'', ''src'']"
          ?e "''/repo/node_modules''" no_options]
  show ?thesis using f1 f2 f3 ok by simp
qed

section \<open>Upload file names: validation\<close>

text \<open>
  Claim C6. A candidate file name that holds whitespace, or starts with a dot, or holds
  a character outside \<open>[A-Za-z0-9._-]\<close>, or does not end in an extension of the image
  allow-list (letter case apart), is refused by \<open>validateUploadFilename\<close> with a
  reason. When the candidate of an upload request (its sanitized \<open>name\<close> parameter) is
  such a name, the \<open>filename\<close> callback of the storage reports an error and the request
  writes no file.
\<close>

theorem invalid_upload_filename_rejected:
  "(violates_filename_rules fileName \<longrightarrow> (\<exists>reason. validateUploadFilename fileName = Some reason))
   \<and> (violates_filename_rules (sanitizeUploadFilename now requestedName) \<longrightarrow>
        (\<exists>err. storage_filename fs now uploadDirectoryPath (Some requestedName) = Inl err)
        \<and> upload_written_file fs now uploadDirectoryPath (Some requestedName) = None)"
proof -
  have v: "\<And>n. violates_filename_rules n \<Longrightarrow> \<exists>reason. validateUploadFilename n = Some reason"
    using validate_None_rules by (metis option.exhaust)
  have "violates_filename_rules (sanitizeUploadFilename now requestedName) \<Longrightarrow>
        \<exists>err. storage_filename fs now uploadDirectoryPath (Some requestedName) = Inl err"
    using v[of "sanitizeUploadFilename now requestedName"]
    by (auto simp: storage_filename_def Let_def split: option.splits)
  then show ?thesis using v[of fileName]
    by (auto simp: upload_written_file_def split: sum.splits)
qed

theorem invalid_upload_filename_rejected_witness:
  "violates_filename_rules ''a b.png''
   \<and> validateUploadFilename ''a b.png'' = Some ''Filename cannot contain spaces''
   \<and> violates_filename_rules ''.env.png''
   \<and> validateUploadFilename ''.env.png'' = Some ''Filename is invalid''
   \<and> violates_filename_rules ''x.exe''
   \<and> validateUploadFilename ''x.exe'' = Some ''Filename must use an allowed image extension''
   \<and> sanitizeUploadFilename 0 ''dir/x.exe'' = ''x.exe''
   \<and> upload_written_file
         \<lparr>fs_stat = (\<lambda>p. None), fs_realpath = (\<lambda>p. None), fs_existsSync = (\<lambda>p. False)\<rparr>
         0 (Some ''/repo/.clipboard'') (Some ''dir/x.exe'') = None
   \<and> validateUploadFilename ''a.PNG'' = None
   \<and> upload_written_file
         \<lparr>fs_stat = (\<lambda>p. None), fs_realpath = (\<lambda>p. None), fs_existsSync = (\<lambda>p. False)\<rparr>
         0 (Some ''/repo/.clipboard'') (Some ''a.PNG'') = Some ''/repo/.clipboard/a.PNG''"
proof -
  let ?fs = "\<lparr>fs_stat = (\<lambda>p. None), fs_realpath = (\<lambda>p. None), fs_existsSync = (\<lambda>p. False)\<rparr>"
  have v1: "violates_filename_rules ''a b.png''"
    by (simp add: violates_filename_rules_def is_js_space_def)
  have v2: "violates_filename_rules ''.env.png''"
    by (simp add: violates_filename_rules_def startsWith_def)
  have "toLowerCase (path_extname ''x.exe'') \<notin> set ALLOWED_IMAGE_EXTENSIONS"
    by (simp add: upload_eval)
  then have "\<not> has_allowed_extension ''x.exe''"
    using allowed_extension_iff[of "''x.exe''"] by (simp add: startsWith_def)
  then have v3: "violates_filename_rules ''x.exe''"
    by (simp add: violates_filename_rules_def)
  have s: "sanitizeUploadFilename 0 ''dir/x.exe'' = ''x.exe''"
    by (simp add: upload_eval js_trim_def is_js_space_def)
  have r1: "validateUploadFilename ''a b.png'' = Some ''Filename cannot contain spaces''"
    by (simp add: upload_eval is_js_space_def)
  have r2: "validateUploadFilename ''.env.png'' = Some ''Filename is invalid''"
    by (simp add: upload_eval is_js_space_def startsWith_def)
  have r3: "validateUploadFilename ''x.exe'' = Some ''Filename must use an allowed image extension''"
    by (simp add: upload_eval is_js_space_def startsWith_def)
  have r4: "validateUploadFilename ''a.PNG'' = None"
    by (simp add: upload_eval is_js_space_def startsWith_def)
  have s4: "sanitizeUploadFilename 0 ''a.PNG'' = ''a.PNG''"
    by (simp add: upload_eval js_trim_def is_js_space_def)
  have w4: "upload_written_file ?fs 0 (Some ''/repo/.clipboard'') (Some ''a.PNG'') = Some ''/repo/.clipboard/a.PNG''"
    by (simp add: upload_written_file_def storage_filename_def s4 r4 path_join_def
        path_normalize_def path_isAbsolute_def)
  from invalid_upload_filename_rejected[of "''a b.png''" 0 "''dir/x.exe''" ?fs "Some ''/repo/.clipboard''"]
       invalid_upload_filename_rejected[of "''.env.png''" 0 "''dir/x.exe''" ?fs "Some ''/repo/.clipboard''"]
       invalid_upload_filename_rejected[of "''x.exe''" 0 "''dir/x.exe''" ?fs "Some ''/repo/.clipboard''"]
  show ?thesis using v1 v2 v3 s r1 r2 r3 r4 w4 by simp
qed

section \<open>Named images stay in their directory\<close>

text \<open>
  Claim C10. The working directory of the process is absolute. Whenever the sanitized
  name passes \<open>validateUploadFilename\<close>, \<open>resolveNamedImagePath\<close> returns a path that
  lies within the resolved base directory: its segments are those of the directory
  followed by the name. For no requested name at all does \<open>resolveNamedImagePath\<close> fail
  with "Path escapes target directory".
\<close>

theorem named_image_stays_in_directory:
  assumes wd: "path_isAbsolute wd"
  shows "(validateUploadFilename (sanitizeUploadFilename now requestedName) = None \<longrightarrow>
            (\<exists>absolutePath.
               resolveNamedImagePath wd now baseDirectoryPath requestedName
                 = Inr (absolutePath, sanitizeUploadFilename now requestedName)
               \<and> lexically_within (path_resolve wd [baseDirectoryPath]) absolutePath
               \<and> path_segments absolutePath
                   = path_segments (path_resolve wd [baseDirectoryPath]) @ [sanitizeUploadFilename now requestedName]))
       \<and> resolveNamedImagePath wd now baseDirectoryPath requestedName
            \<noteq> Inl (Error ''Path escapes target directory'')"
proof (cases "validateUploadFilename (sanitizeUploadFilename now requestedName)")
  case None
  let ?n = "sanitizeUploadFilename now requestedName"
  from path_resolve_render[OF wd, of "[baseDirectoryPath]"] obtain ds
    where ds: "\<forall>seg \<in> set ds. clean_segment seg"
      and dir: "path_resolve wd [baseDirectoryPath] = render ds" by blast
  note n = validated_name_clean[OF None]
  have c: "\<forall>seg \<in> set (ds @ [?n]). clean_segment seg" using ds n(1) by auto
  have res: "resolveNamedImagePath wd now baseDirectoryPath requestedName = Inr (render (ds @ [?n]), ?n)"
    using None n(2,3)
    by (simp add: resolveNamedImagePath_def Let_def dir path_resolve_child[OF ds n(1)]
        path_relative_child[OF ds n(1)])
  have "lexically_within (render ds) (render (ds @ [?n]))"
    by (simp add: lexically_within_def path_segments_render[OF ds] path_segments_render[OF c])
  moreover have "path_segments (render (ds @ [?n])) = path_segments (render ds) @ [?n]"
    by (simp add: path_segments_render[OF ds] path_segments_render[OF c])
  ultimately show ?thesis using res dir by simp
next
  case (Some reason)
  then have "reason \<noteq> ''Path escapes target directory''"
    by (auto simp: validateUploadFilename_def Let_def split: if_splits)
  then show ?thesis using Some by (simp add: resolveNamedImagePath_def Let_def)
qed

theorem named_image_stays_in_directory_witness:
  "path_isAbsolute ''/srv''
   \<and> validateUploadFilename (sanitizeUploadFilename 0 ''../../etc/shot.png'') = None
   \<and> resolveNamedImagePath ''/srv'' 0 ''/repo/.clipboard'' ''../../etc/shot.png''
       = Inr (''/repo/.clipboard/shot.png'', ''shot.png'')
   \<and> lexically_within ''/repo/.clipboard'' ''/repo/.clipboard/shot.png''"
proof -
  have wd: "path_isAbsolute ''/srv''" by (simp add: path_isAbsolute_def)
  have s: "sanitizeUploadFilename 0 ''../../etc/shot.png'' = ''shot.png''"
    by (simp add: upload_eval js_trim_def is_js_space_def)
  have v: "validateUploadFilename ''shot.png'' = None"
    by (simp add: upload_eval is_js_space_def startsWith_def)
  have d: "path_resolve ''/srv'' [''/repo/.clipboard''] = ''/repo/.clipboard''"
    by (simp add: path_eval)
  have r: "resolveNamedImagePath ''/srv'' 0 ''/repo/.clipboard'' ''../../etc/shot.png''
       = Inr (''/repo/.clipboard/shot.png'', ''shot.png'')"
    by (simp add: resolveNamedImagePath_def s v path_eval)
  from named_image_stays_in_directory[OF wd, of 0 "''../../etc/shot.png''" "''/repo/.clipboard''"]
  show ?thesis using wd s v d r by simp
qed

section \<open>Conditional cache responder\<close>



section \<open>Authentication gateway: same-origin check on mutations\<close>

text \<open>
  Claim C4. A password is configured. A request with a mutating method (POST, PUT,
  PATCH, DELETE) that comes from an address that is not blocked and carries the right
  credentials, whose effective origin (from \<open>Origin\<close> or else \<open>Referer\<close>, normalized to
  lower-case host, colon, port with the port defaulted by scheme) is missing or differs
  from the normalized authority of the request itself, is answered with status 403
  "Origin validation failed"; it is not passed on to a route handler.
\<close>

theorem cross_origin_mutation_rejected:
  assumes "BASIC_AUTH_PASSWORD e \<noteq> []"
    and "\<not> is_blocked authFailureByIP (clientIPAddress req) (now_entry clk)"
    and "credentials_ok rt e req"
    and "is_mutating (req_method req)"
    and "effective_origin rt req = None \<or> effective_origin rt req \<noteq> normalizeRequestAuthority rt req"
  shows "fst (gateway rt e authFailureByIP clk req res)
           = Responded (send res 403 ''Origin validation failed'')
       \<and> status (send res 403 ''Origin validation failed'') = 403
       \<and> fst (gateway rt e authFailureByIP clk req res) \<noteq> Next"
proof -
  have "\<not> isSameOriginMutation rt req"
    using assms(5)
    by (auto simp: isSameOriginMutation_def effective_origin_def truthy_def split: option.splits if_splits)
  then show ?thesis
    using assms(1-4)
    by (simp add: gateway_def auth_middleware_def Let_def is_blocked_case send_def)
qed

theorem cross_origin_mutation_rejected_witness:
  "BASIC_AUTH_PASSWORD example_env \<noteq> []
   \<and> credentials_ok example_runtime example_env
        (example_request ''DELETE''
           [(''authorization'', ''Basic dXNlcjpzZWNyZXQ=''), (''host'', ''repo.example''),
            (''referer'', ''https://evil.example/page'')])
   \<and> effective_origin example_runtime
        (example_request ''DELETE''
           [(''authorization'', ''Basic dXNlcjpzZWNyZXQ=''), (''host'', ''repo.example''),
            (''referer'', ''https://evil.example/page'')]) = Some ''evil.example:443''
   \<and> normalizeRequestAuthority example_runtime
        (example_request ''DELETE''
           [(''authorization'', ''Basic dXNlcjpzZWNyZXQ=''), (''host'', ''repo.example''),
            (''referer'', ''https://evil.example/page'')]) = Some ''repo.example:80''
   \<and> fst (gateway example_runtime example_env Map.empty (example_clock 1000)
        (example_request ''DELETE''
           [(''authorization'', ''Basic dXNlcjpzZWNyZXQ=''), (''host'', ''repo.example''),
            (''referer'', ''https://evil.example/page'')]) fresh_response)
       = Responded (send fresh_response 403 ''Origin validation failed'')
   \<and> effective_origin example_runtime
        (example_request ''POST''
           [(''authorization'', ''Basic dXNlcjpzZWNyZXQ=''), (''host'', ''repo.example'')]) = None
   \<and> fst (gateway example_runtime example_env Map.empty (example_clock 1000)
        (example_request ''POST''
           [(''authorization'', ''Basic dXNlcjpzZWNyZXQ=''), (''host'', ''repo.example'')]) fresh_response)
       = Responded (send fresh_response 403 ''Origin validation failed'')"
proof -
  let ?r1 = "example_request ''DELETE''
           [(''authorization'', ''Basic dXNlcjpzZWNyZXQ=''), (''host'', ''repo.example''),
            (''referer'', ''https://evil.example/page'')]"
  let ?r2 = "example_request ''POST''
           [(''authorization'', ''Basic dXNlcjpzZWNyZXQ=''), (''host'', ''repo.example'')]"
  have pw: "BASIC_AUTH_PASSWORD example_env \<noteq> []" by (simp add: request_eval)
  have nb1: "\<not> is_blocked Map.empty (clientIPAddress ?r1) (now_entry (example_clock 1000))"
    by (simp add: is_blocked_def)
  have nb2: "\<not> is_blocked Map.empty (clientIPAddress ?r2) (now_entry (example_clock 1000))"
    by (simp add: is_blocked_def)
  have c1: "credentials_ok example_runtime example_env ?r1" by (simp add: request_eval)
  have c2: "credentials_ok example_runtime example_env ?r2" by (simp add: request_eval)
  have m1: "is_mutating (req_method ?r1)" by (simp add: is_mutating_def example_request_def)
  have m2: "is_mutating (req_method ?r2)" by (simp add: is_mutating_def example_request_def)
  have o1: "effective_origin example_runtime ?r1 = Some ''evil.example:443''"
    by (simp add: effective_origin_def truthy_def normalizeAuthority_def toLowerCase_def
        lower_char_def example_request_def example_runtime_def)
  have a1: "normalizeRequestAuthority example_runtime ?r1 = Some ''repo.example:80''"
    by (simp add: normalizeRequestAuthority_def normalizeAuthority_def toLowerCase_def
        lower_char_def example_request_def example_runtime_def startsWith_def)
  have o2: "effective_origin example_runtime ?r2 = None"
    by (simp add: effective_origin_def truthy_def example_request_def)
  have h1: "effective_origin example_runtime ?r1 = None
            \<or> effective_origin example_runtime ?r1 \<noteq> normalizeRequestAuthority example_runtime ?r1"
    using o1 a1 by simp
  have h2: "effective_origin example_runtime ?r2 = None
            \<or> effective_origin example_runtime ?r2 \<noteq> normalizeRequestAuthority example_runtime ?r2"
    using o2 by simp
  from cross_origin_mutation_rejected[OF pw nb1 c1 m1 h1, of fresh_response]
       cross_origin_mutation_rejected[OF pw nb2 c2 m2 h2, of fresh_response]
  show ?thesis using pw c1 o1 a1 o2 by simp
qed

section \<open>Authentication gateway: blocking after repeated failures\<close>

text \<open>
  Claim C3. A password is configured and the address has no failure record. In a trace
  of requests, exactly \<open>AUTH_MAX_ATTEMPTS\<close> (20) come from the address; all of them lack
  the right credentials and are recorded less than \<open>AUTH_WINDOW_MS\<close> after the first;
  requests from other addresses may come in between. The clock is not before 1970.
  Then the record of the address is blocked until the recording time of the last of
  these attempts plus \<open>AUTH_BLOCK_MS\<close>, with a new window and no failures counted. It
  stays so through any later requests, as long as those from the address arrive before
  the block ends. And any request from the address that arrives before the block ends,
  whatever its credentials, is answered with status 429 and a positive \<open>Retry-After\<close>
  number of seconds; it is not passed on, and the records are left as they are.
\<close>

theorem block_after_threshold:
  assumes pw: "BASIC_AUTH_PASSWORD e \<noteq> []"
    and clean: "st ip = None"
    and count: "int (length (requests_from ip reqs)) = AUTH_MAX_ATTEMPTS"
    and wrong: "\<forall>cr \<in> set (requests_from ip reqs). \<not> credentials_ok rt e (snd cr)"
    and window: "\<forall>cr \<in> set (requests_from ip reqs).
                   now_record (fst cr) - now_record (fst (hd (requests_from ip reqs))) < AUTH_WINDOW_MS"
    and epoch: "0 \<le> now_record (fst (last (requests_from ip reqs)))"
    and until: "until = now_record (fst (last (requests_from ip reqs))) + AUTH_BLOCK_MS"
    and later: "\<forall>cr \<in> set (requests_from ip later). now_entry (fst cr) < until"
  shows "serve_all rt e st reqs ip
           = Some \<lparr>windowStartAt = until - AUTH_BLOCK_MS, failures = 0, blockedUntil = until\<rparr>
       \<and> serve_all rt e st (reqs @ later) ip = serve_all rt e st reqs ip
       \<and> (\<forall>clk req res. clientIPAddress req = ip \<and> now_entry clk < until \<longrightarrow>
             gateway rt e (serve_all rt e st (reqs @ later)) clk req res
               = (Responded (too_many_failures res (ceil_seconds (until - now_entry clk))),
                  serve_all rt e st (reqs @ later))
             \<and> 0 < ceil_seconds (until - now_entry clk)
             \<and> status (too_many_failures res (ceil_seconds (until - now_entry clk))) = 429
             \<and> map_of (res_headers (too_many_failures res (ceil_seconds (until - now_entry clk))))
                   ''Retry-After''
                 = Some (show_int (ceil_seconds (until - now_entry clk))))"
proof -
  let ?r = "\<lparr>windowStartAt = until - AUTH_BLOCK_MS, failures = 0, blockedUntil = until\<rparr>"
  have inv: "((0::int) = 0 \<and> st ip = None \<and>
               now_record (fst (hd (requests_from ip reqs))) = now_record (fst (hd (requests_from ip reqs))))
              \<or> (1 \<le> (0::int) \<and> 0 < AUTH_MAX_ATTEMPTS
                  \<and> st ip = Some \<lparr>windowStartAt = now_record (fst (hd (requests_from ip reqs))),
                                  failures = 0, blockedUntil = 0\<rparr>)"
    using clean by simp
  have a: "serve_all rt e st reqs ip = Some ?r"
    using serve_all_warming[where k = 0 and st = st, OF pw wrong window _ inv] count until by simp
  have nz: "blockedUntil ?r \<noteq> 0" using epoch until by (simp add: AUTH_BLOCK_MS_def)
  have early: "\<forall>cr \<in> set (requests_from ip later). now_entry (fst cr) < blockedUntil ?r"
    using later by simp
  have b: "serve_all rt e st (reqs @ later) ip = Some ?r"
    unfolding serve_all_append
    by (rule serve_all_blocked[where st = "serve_all rt e st reqs", OF pw a nz early])
  have c: "gateway rt e (serve_all rt e st (reqs @ later)) clk req res
               = (Responded (too_many_failures res (ceil_seconds (until - now_entry clk))),
                  serve_all rt e st (reqs @ later))
             \<and> 0 < ceil_seconds (until - now_entry clk)"
    if "clientIPAddress req = ip" and "now_entry clk < until" for clk req res
  proof -
    have "is_blocked (serve_all rt e st (reqs @ later)) (clientIPAddress req) (now_entry clk)"
      using that b nz by (simp add: is_blocked_def)
    from gateway_blocked[OF pw this] show ?thesis
      using that b ceil_seconds_pos[of "until - now_entry clk"] by simp
  qed
  show ?thesis
  proof (intro conjI allI impI)
    show "serve_all rt e st reqs ip = Some ?r" by (rule a)
    show "serve_all rt e st (reqs @ later) ip = serve_all rt e st reqs ip" using a b by simp
  next
    fix clk :: clock and req :: request and res :: response
    assume h: "clientIPAddress req = ip \<and> now_entry clk < until"
    then show "gateway rt e (serve_all rt e st (reqs @ later)) clk req res
               = (Responded (too_many_failures res (ceil_seconds (until - now_entry clk))),
                  serve_all rt e st (reqs @ later))" using c by blast
    from h show "0 < ceil_seconds (until - now_entry clk)" using c by blast
    show "status (too_many_failures res (ceil_seconds (until - now_entry clk))) = 429"
      by (simp add: too_many_failures_def send_def)
    show "map_of (res_headers (too_many_failures res (ceil_seconds (until - now_entry clk))))
                   ''Retry-After''
                 = Some (show_int (ceil_seconds (until - now_entry clk)))"
      by (simp add: too_many_failures_def send_def setHeader_def)
  qed
qed

theorem block_after_threshold_witness:
  "BASIC_AUTH_PASSWORD example_env \<noteq> []
   \<and> int (length (requests_from ''10.0.0.1''
        (replicate 20 (example_clock 1000, example_request ''GET'' [(''authorization'', ''Basic eDp5'')]))))
       = AUTH_MAX_ATTEMPTS
   \<and> \<not> credentials_ok example_runtime example_env
         (example_request ''GET'' [(''authorization'', ''Basic eDp5'')])
   \<and> serve_all example_runtime example_env Map.empty
        (replicate 20 (example_clock 1000, example_request ''GET'' [(''authorization'', ''Basic eDp5'')]))
        ''10.0.0.1''
       = Some \<lparr>windowStartAt = 1000, failures = 0, blockedUntil = 901000\<rparr>
   \<and> credentials_ok example_runtime example_env
        (example_request ''GET'' [(''authorization'', ''Basic dXNlcjpzZWNyZXQ='')])
   \<and> fst (gateway example_runtime example_env
        (serve_all example_runtime example_env Map.empty
           (replicate 20 (example_clock 1000, example_request ''GET'' [(''authorization'', ''Basic eDp5'')])))
        (example_clock 2000)
        (example_request ''GET'' [(''authorization'', ''Basic dXNlcjpzZWNyZXQ='')])
        fresh_response)
       = Responded (too_many_failures fresh_response 899)
   \<and> status (too_many_failures fresh_response 899) = 429
   \<and> map_of (res_headers (too_many_failures fresh_response 899)) ''Retry-After'' = Some ''899''"
proof -
  let ?bad = "example_request ''GET'' [(''authorization'', ''Basic eDp5'')]"
  let ?good = "example_request ''GET'' [(''authorization'', ''Basic dXNlcjpzZWNyZXQ='')]"
  let ?reqs = "replicate 20 (example_clock 1000, ?bad)"
  have pw: "BASIC_AUTH_PASSWORD example_env \<noteq> []" by (simp add: request_eval)
  have ip: "clientIPAddress ?bad = ''10.0.0.1''" "clientIPAddress ?good = ''10.0.0.1''"
    by (simp_all add: request_eval)
  have sel: "requests_from ''10.0.0.1'' ?reqs = ?reqs"
    using ip by (simp add: requests_from_def)
  have clean: "(Map.empty :: auth_state) ''10.0.0.1'' = None" by simp
  have count: "int (length (requests_from ''10.0.0.1'' ?reqs)) = AUTH_MAX_ATTEMPTS"
    unfolding sel by (simp add: AUTH_MAX_ATTEMPTS_def)
  have nc: "\<not> credentials_ok example_runtime example_env ?bad" by (simp add: request_eval)
  have wrong: "\<forall>cr \<in> set (requests_from ''10.0.0.1'' ?reqs). \<not> credentials_ok example_runtime example_env (snd cr)"
    unfolding sel using nc by simp
  have window: "\<forall>cr \<in> set (requests_from ''10.0.0.1'' ?reqs).
      now_record (fst cr) - now_record (fst (hd (requests_from ''10.0.0.1'' ?reqs))) < AUTH_WINDOW_MS"
    unfolding sel by (simp add: AUTH_WINDOW_MS_def)
  have epoch: "0 \<le> now_record (fst (last (requests_from ''10.0.0.1'' ?reqs)))"
    unfolding sel by (simp add: example_clock_def)
  have until: "(901000::int) = now_record (fst (last (requests_from ''10.0.0.1'' ?reqs))) + AUTH_BLOCK_MS"
    unfolding sel by (simp add: example_clock_def AUTH_BLOCK_MS_def)
  have later: "\<forall>cr \<in> set (requests_from ''10.0.0.1'' []). now_entry (fst cr) < (901000::int)"
    by (simp add: requests_from_def)
  have good: "credentials_ok example_runtime example_env ?good" by (simp add: request_eval)
  have early: "now_entry (example_clock 2000) < (901000::int)" by (simp add: example_clock_def)
  have secs: "ceil_seconds (901000 - now_entry (example_clock 2000)) = 899"
    by (simp add: ceil_seconds_def example_clock_def)
  have hdr: "show_int 899 = ''899''"
    by (simp add: show_int_def show_nat.simps digit_char_def)
  note blocked = block_after_threshold[OF pw clean count wrong window epoch until later]
  have a: "serve_all example_runtime example_env Map.empty ?reqs ''10.0.0.1''
          = Some \<lparr>windowStartAt = 1000, failures = 0, blockedUntil = 901000\<rparr>"
    using blocked[THEN conjunct1] by (simp add: AUTH_BLOCK_MS_def)
  have h: "clientIPAddress ?good = ''10.0.0.1'' \<and> now_entry (example_clock 2000) < (901000::int)"
    using ip(2) early by simp
  note answer = blocked[THEN conjunct2, THEN conjunct2, rule_format,
      where clk = "example_clock 2000" and req = ?good and res = fresh_response, OF h]
  have b: "gateway example_runtime example_env (serve_all example_runtime example_env Map.empty ?reqs)
              (example_clock 2000) ?good fresh_response
            = (Responded (too_many_failures fresh_response 899),
               serve_all example_runtime example_env Map.empty ?reqs)"
    using answer[THEN conjunct1] unfolding secs by simp
  have c: "status (too_many_failures fresh_response 899) = 429"
    using answer[THEN conjunct2, THEN conjunct2, THEN conjunct1] unfolding secs by simp
  have d: "map_of (res_headers (too_many_failures fresh_response 899)) ''Retry-After'' = Some ''899''"
    using answer[THEN conjunct2, THEN conjunct2, THEN conjunct2] unfolding secs hdr by simp
  show ?thesis using pw count nc a good b c d by simp
qed

end
